theory Spec2Isabelle
  imports Complex_Main "HOL-Library.AList" "HOL-Library.Multiset"
begin

section \<open>Data model (src/types)\<close>

text \<open>
  \<open>WeatherData\<close>: \<open>dateutc\<close> is an epoch timestamp in milliseconds, \<open>tempf\<close> a temperature.
  Timestamps are integers inside the range where a JavaScript \<open>Date\<close> is valid, so that
  \<open>new Date(t).getTime()\<close> is \<open>t\<close>. Temperatures are the real values of finite doubles:
  the comparisons \<open>>=\<close> and \<open><=\<close> of the source agree with the order of the reals there.
\<close>

record WeatherData =
  dateutc :: int
  tempf :: real

record ChillHourReport =
  totalHours :: nat
  chillHours :: nat
  date :: string
  percentChillHours :: real

section \<open>The JavaScript host: calendar, time zone, clock\<close>

text \<open>
  What the source takes from its runtime and not from the repository: the conversion
  between UTC and local time (the time zone of the machine), the rendering of a date by
  \<open>toLocaleDateString\<close>, and the clock read by \<open>new Date()\<close>.
\<close>

record host =
  LocalTime :: "int \<Rightarrow> int"
  UTC :: "int \<Rightarrow> int"
  toLocaleDateString :: "int \<Rightarrow> string"
  now :: int

definition msPerDay :: int where
  "msPerDay = 24 * 60 * 60 * 1000"

definition msPerHour :: int where
  "msPerHour = 60 * 60 * 1000"

text \<open>
  Day number (days since 1970-01-01) of a date of the proleptic Gregorian calendar, and
  back. Years are counted from March in cycles of 400 years (146097 days), so that the
  leap day is the last day of a counted year. The day of the month enters linearly, as in
  ECMAScript's MakeDay, so that day 0 of a month is the last day of the month before.
\<close>

definition days_from_civil :: "int \<Rightarrow> int \<Rightarrow> int \<Rightarrow> int" where
  "days_from_civil y m d =
     (let y' = (if m \<le> 2 then y - 1 else y);
          era = y' div 400;
          yoe = y' - era * 400;
          mp = (if m > 2 then m - 3 else m + 9);
          doy = (153 * mp + 2) div 5 + d - 1;
          doe = yoe * 365 + yoe div 4 - yoe div 100 + doy
      in era * 146097 + doe - 719468)"

definition civil_from_days :: "int \<Rightarrow> int \<times> int \<times> int" where
  "civil_from_days z =
     (let z' = z + 719468;
          era = z' div 146097;
          doe = z' - era * 146097;
          yoe = (doe - doe div 1460 + doe div 36524 - doe div 146096) div 365;
          doy = doe - (365 * yoe + yoe div 4 - yoe div 100);
          mp = (5 * doy + 2) div 153;
          d = doy - (153 * mp + 2) div 5 + 1;
          m = (if mp < 10 then mp + 3 else mp - 9)
      in (if m \<le> 2 then yoe + era * 400 + 1 else yoe + era * 400, m, d))"

text \<open>
  ECMAScript's MakeDay: the month index (0-based) may lie outside 0..11 and carries into
  the year; the day of the month is added to the first of that month.
\<close>

definition MakeDay :: "int \<Rightarrow> int \<Rightarrow> int \<Rightarrow> int" where
  "MakeDay year month dt =
     days_from_civil (year + month div 12) (month mod 12 + 1) 1 + dt - 1"

text \<open>
  \<open>new Date(year, monthIndex, day)\<close>: a year from 0 to 99 means 1900 + year; the fields
  are local time, at midnight. The result is the time value (UTC milliseconds).
\<close>

definition new_Date :: "host \<Rightarrow> int \<Rightarrow> int \<Rightarrow> int \<Rightarrow> int" where
  "new_Date h year monthIndex day =
     (let yr = (if 0 \<le> year \<and> year \<le> 99 then 1900 + year else year)
      in UTC h (MakeDay yr monthIndex day * msPerDay))"

text \<open>The local calendar fields of a time value: \<open>getFullYear\<close>, \<open>getMonth\<close> (0-based),
  \<open>getDate\<close>, \<open>getHours\<close>.\<close>

definition getFullYear :: "host \<Rightarrow> int \<Rightarrow> int" where
  "getFullYear h t = fst (civil_from_days (LocalTime h t div msPerDay))"

definition getMonth :: "host \<Rightarrow> int \<Rightarrow> int" where
  "getMonth h t = fst (snd (civil_from_days (LocalTime h t div msPerDay))) - 1"

definition getDate :: "host \<Rightarrow> int \<Rightarrow> int" where
  "getDate h t = snd (snd (civil_from_days (LocalTime h t div msPerDay)))"

definition getHours :: "host \<Rightarrow> int \<Rightarrow> int" where
  "getHours h t = (LocalTime h t div msPerHour) mod 24"

text \<open>A host in the UTC time zone that prints every date the same way.\<close>

definition utc_host :: host where
  "utc_host = \<lparr> LocalTime = (\<lambda>t. t), UTC = (\<lambda>t. t),
                toLocaleDateString = (\<lambda>t. ''day''), now = 1700000000000 \<rparr>"

subsection \<open>Numbers\<close>

text \<open>
  A JavaScript number is an IEEE 754 double. \<open>double x\<close> is the double nearest to the
  real \<open>x\<close>, the one with the even significand of 53 bits when two are as near: the
  result of an arithmetic operation whose exact result is \<open>x\<close>, for an \<open>x\<close> whose size is
  in the normal range of doubles (from \<open>2^-1022\<close> to below \<open>2^1024\<close>). A count such as a
  length is a double as it is.
\<close>

definition round_even :: "real \<Rightarrow> int" where
  "round_even x =
     (let f = \<lfloor>x\<rfloor>; d = x - of_int f
      in if d < 1 / 2 then f else if d > 1 / 2 then f + 1 else if even f then f else f + 1)"

definition double :: "real \<Rightarrow> real" where
  "double x =
     (if x = 0 then 0
      else (let e = \<lfloor>log 2 \<bar>x\<bar>\<rfloor>
            in of_int (round_even (x * 2 powr of_int (52 - e))) * 2 powr of_int (e - 52)))"

section \<open>ChillHourCalculator (src/services/chillHours.ts)\<close>

record ChillHourCalculator =
  minTemp :: real
  maxTemp :: real

definition DEFAULT_MIN_TEMP_F :: real where "DEFAULT_MIN_TEMP_F = 32"
definition DEFAULT_MAX_TEMP_F :: real where "DEFAULT_MAX_TEMP_F = 45"
definition DECEMBER_MONTH :: int where "DECEMBER_MONTH = 11"

definition default_calculator :: ChillHourCalculator where
  "default_calculator = \<lparr> minTemp = DEFAULT_MIN_TEMP_F, maxTemp = DEFAULT_MAX_TEMP_F \<rparr>"

text \<open>The value of an hour in the map of \<open>groupReadingsByHour\<close>.\<close>

record hourData =
  temps :: "real list"
  inRange :: nat

definition createEmptyReport :: "string \<Rightarrow> ChillHourReport" where
  "createEmptyReport message =
     \<lparr> totalHours = 0, chillHours = 0, date = message, percentChillHours = 0 \<rparr>"

text \<open>
  \<open>[...data].sort((a, b) => a.dateutc - b.dateutc)\<close>: a sort of a copy. The sort of an
  array is stable in JavaScript, and the stable sort by a key is unique: \<open>sort_key\<close>.
\<close>

definition sortDataChronologically :: "WeatherData list \<Rightarrow> WeatherData list" where
  "sortDataChronologically data = sort_key dateutc data"

text \<open>
  The key of an hour. The source builds the string \<open>year-month-day-hour\<close> from the local
  calendar fields; the four numbers determine the string and the string determines them
  (month, day and hour are not negative), so the key is the tuple.
\<close>

type_synonym hourKey = "int \<times> int \<times> int \<times> int"

definition createHourKey :: "host \<Rightarrow> int \<Rightarrow> hourKey" where
  "createHourKey h timestamp =
     (getFullYear h timestamp, getMonth h timestamp + 1, getDate h timestamp,
      getHours h timestamp)"

definition isTemperatureInChillRange :: "ChillHourCalculator \<Rightarrow> real \<Rightarrow> bool" where
  "isTemperatureInChillRange c tempF \<longleftrightarrow> tempF \<ge> minTemp c \<and> tempF \<le> maxTemp c"

text \<open>
  One turn of the loop of \<open>groupReadingsByHour\<close>. The map is a JavaScript \<open>Map\<close>: an
  association list in the order of insertion. An hour not in the map yet gets the value
  \<open>{ temps: [], inRange: 0 }\<close>; the value of the hour then gets the temperature pushed
  and, when the temperature is in range, its counter incremented.
\<close>

definition groupReadingsByHour_step ::
  "ChillHourCalculator \<Rightarrow> host \<Rightarrow> (hourKey \<times> hourData) list \<Rightarrow> WeatherData
     \<Rightarrow> (hourKey \<times> hourData) list" where
  "groupReadingsByHour_step c h hourlyData entry =
     (let hourKey = createHourKey h (dateutc entry);
          hd0 = (case map_of hourlyData hourKey of
                   None \<Rightarrow> \<lparr> temps = [], inRange = 0 \<rparr>
                 | Some v \<Rightarrow> v);
          hd1 = hd0 \<lparr> temps := temps hd0 @ [tempf entry] \<rparr>;
          hd2 = (if isTemperatureInChillRange c (tempf entry)
                 then hd1 \<lparr> inRange := inRange hd1 + 1 \<rparr> else hd1)
      in AList.update hourKey hd2 hourlyData)"

fun groupReadingsByHour_loop ::
  "ChillHourCalculator \<Rightarrow> host \<Rightarrow> (hourKey \<times> hourData) list \<Rightarrow> WeatherData list
     \<Rightarrow> (hourKey \<times> hourData) list" where
  "groupReadingsByHour_loop c h hourlyData [] = hourlyData"
| "groupReadingsByHour_loop c h hourlyData (entry # rest) =
     groupReadingsByHour_loop c h (groupReadingsByHour_step c h hourlyData entry) rest"

definition groupReadingsByHour ::
  "ChillHourCalculator \<Rightarrow> host \<Rightarrow> WeatherData list \<Rightarrow> (hourKey \<times> hourData) list" where
  "groupReadingsByHour c h sortedData = groupReadingsByHour_loop c h [] sortedData"

text \<open>
  \<open>hourData.temps.length > 0 && hourData.inRange / hourData.temps.length >= 0.5\<close>.
  The quotient of two counts below \<open>2^53\<close> is at least 0.5 as a double exactly when it is
  as a real: 0.5 is a double, rounding is monotone, and a quotient below 0.5 is below it
  by at least \<open>1 / (2 * length)\<close>.
\<close>

definition isChillHour :: "hourData \<Rightarrow> bool" where
  "isChillHour hourDat \<longleftrightarrow>
     length (temps hourDat) > 0 \<and>
     real (inRange hourDat) / real (length (temps hourDat)) \<ge> 1 / 2"

definition countChillHours :: "(hourKey \<times> hourData) list \<Rightarrow> nat \<times> nat" where
  "countChillHours hourlyData =
     (length hourlyData, length (filter (\<lambda>(k, hourDat). isChillHour hourDat) hourlyData))"

text \<open>
  \<open>createReport\<close>. The percentage is \<open>(chillHours / totalHours) * 100\<close> in doubles: the
  quotient of the two counts is rounded, and its product with 100 is rounded again.
\<close>

definition createReport :: "host \<Rightarrow> WeatherData list \<Rightarrow> nat \<Rightarrow> nat \<Rightarrow> ChillHourReport" where
  "createReport h sortedData tHours cHours =
     (let startDate = dateutc (sortedData ! 0);
          endDate = dateutc (sortedData ! (length sortedData - 1));
          dateStr = toLocaleDateString h startDate @ '' to '' @ toLocaleDateString h endDate
      in \<lparr> totalHours = tHours, chillHours = cHours, date = dateStr,
           percentChillHours =
             (if tHours > 0 then double (double (real cHours / real tHours) * 100)
              else 0) \<rparr>)"

text \<open>The part of \<open>calculateChillHours\<close> after the sort.\<close>

definition reportOfSorted :: "ChillHourCalculator \<Rightarrow> host \<Rightarrow> WeatherData list \<Rightarrow> ChillHourReport" where
  "reportOfSorted c h sortedData =
     (if length sortedData = 0 then createEmptyReport ''No data available''
      else (let hourlyData = groupReadingsByHour c h sortedData;
                (tHours, cHours) = countChillHours hourlyData
            in createReport h sortedData tHours cHours))"

definition calculateChillHours :: "ChillHourCalculator \<Rightarrow> host \<Rightarrow> WeatherData list \<Rightarrow> ChillHourReport" where
  "calculateChillHours c h data = reportOfSorted c h (sortDataChronologically data)"


text \<open>
  \<open>determineSeasonDates\<close>. The year is optional, and \<open>year || currentYear\<close> takes the
  current year also for the year 0.
\<close>

definition determineSeasonDates :: "host \<Rightarrow> int \<Rightarrow> int option \<Rightarrow> int \<times> int" where
  "determineSeasonDates h seasonStartMonth year =
     (let currentYear = getFullYear h (now h);
          calculationYear = (case year of
                               None \<Rightarrow> currentYear
                             | Some y \<Rightarrow> if y = 0 then currentYear else y)
      in if seasonStartMonth \<le> 6
         then (new_Date h calculationYear (seasonStartMonth - 1) 1,
               new_Date h calculationYear DECEMBER_MONTH 31)
         else (new_Date h (calculationYear - 1) (seasonStartMonth - 1) 1,
               new_Date h calculationYear (seasonStartMonth - 1) 0))"

definition filterDataForSeason :: "WeatherData list \<Rightarrow> int \<Rightarrow> int \<Rightarrow> WeatherData list" where
  "filterDataForSeason allData seasonStart seasonEnd =
     filter (\<lambda>entry. dateutc entry \<ge> seasonStart \<and> dateutc entry \<le> seasonEnd) allData"

text \<open>\<open>calculateSeasonChillHours\<close>, without its console output (the coverage report).\<close>

definition calculateSeasonChillHours ::
  "ChillHourCalculator \<Rightarrow> host \<Rightarrow> WeatherData list \<Rightarrow> int \<Rightarrow> int option \<Rightarrow> ChillHourReport" where
  "calculateSeasonChillHours c h allData seasonStartMonth year =
     (let (seasonStart, seasonEnd) = determineSeasonDates h seasonStartMonth year;
          seasonData = filterDataForSeason allData seasonStart seasonEnd
      in if length seasonData = 0
         then createEmptyReport (toLocaleDateString h seasonStart @ '' to '' @
                                 toLocaleDateString h seasonEnd @ '' (no data)'')
         else calculateChillHours c h seasonData)"

subsection \<open>The aggregator on a store of arrays\<close>

text \<open>
  A JavaScript array is a mutable object that the caller and the callee share. Here the
  arrays live in a store, a function takes the reference of its argument, and every
  allocation and every write of the source is a step on the store: \<open>[...data]\<close> and
  \<open>filter\<close> allocate a new array, \<open>sort\<close> writes the array it is called on.
\<close>

type_synonym ref = nat

record store =
  arrays :: "ref \<Rightarrow> WeatherData list option"
  nextRef :: ref

definition array_of :: "store \<Rightarrow> ref \<Rightarrow> WeatherData list" where
  "array_of m r = (case arrays m r of None \<Rightarrow> [] | Some xs \<Rightarrow> xs)"

definition alloc_array :: "WeatherData list \<Rightarrow> store \<Rightarrow> ref \<times> store" where
  "alloc_array xs m =
     (nextRef m, m \<lparr> arrays := (arrays m)(nextRef m \<mapsto> xs), nextRef := Suc (nextRef m) \<rparr>)"

definition sort_in_place :: "ref \<Rightarrow> store \<Rightarrow> store" where
  "sort_in_place r m = m \<lparr> arrays := (arrays m)(r \<mapsto> sort_key dateutc (array_of m r)) \<rparr>"

definition sortDataChronologically_store :: "ref \<Rightarrow> store \<Rightarrow> ref \<times> store" where
  "sortDataChronologically_store data m =
     (let (copy, m1) = alloc_array (array_of m data) m
      in (copy, sort_in_place copy m1))"

definition calculateChillHours_store ::
  "ChillHourCalculator \<Rightarrow> host \<Rightarrow> ref \<Rightarrow> store \<Rightarrow> ChillHourReport \<times> store" where
  "calculateChillHours_store c h data m =
     (let (sortedData, m1) = sortDataChronologically_store data m
      in (reportOfSorted c h (array_of m1 sortedData), m1))"

definition filterDataForSeason_store :: "ref \<Rightarrow> int \<Rightarrow> int \<Rightarrow> store \<Rightarrow> ref \<times> store" where
  "filterDataForSeason_store allData seasonStart seasonEnd m =
     alloc_array
       (filter (\<lambda>entry. dateutc entry \<ge> seasonStart \<and> dateutc entry \<le> seasonEnd)
          (array_of m allData)) m"

definition calculateSeasonChillHours_store ::
  "ChillHourCalculator \<Rightarrow> host \<Rightarrow> ref \<Rightarrow> int \<Rightarrow> int option \<Rightarrow> store
     \<Rightarrow> ChillHourReport \<times> store" where
  "calculateSeasonChillHours_store c h allData seasonStartMonth year m =
     (let (seasonStart, seasonEnd) = determineSeasonDates h seasonStartMonth year;
          (seasonData, m1) = filterDataForSeason_store allData seasonStart seasonEnd m
      in if length (array_of m1 seasonData) = 0
         then (createEmptyReport (toLocaleDateString h seasonStart @ '' to '' @
                                  toLocaleDateString h seasonEnd @ '' (no data)''), m1)
         else calculateChillHours_store c h seasonData m1)"

section \<open>AmbientWeatherAPI (src/services/ambientApi.ts)\<close>

record AmbientWeatherAPI =
  apiKey :: string
  applicationKey :: "string option"
  baseUrl :: string
  rateLimitDelay :: int

definition DEFAULT_RATE_LIMIT_DELAY_MS :: int where "DEFAULT_RATE_LIMIT_DELAY_MS = 1000"
definition DEFAULT_READINGS_PER_DAY :: int where "DEFAULT_READINGS_PER_DAY = 288"
definition DEFAULT_READINGS_PER_CHUNK :: int where "DEFAULT_READINGS_PER_CHUNK = 500"
definition MAX_FETCH_OPERATIONS :: nat where "MAX_FETCH_OPERATIONS = 100"
definition MILLISECONDS_PER_DAY :: int where "MILLISECONDS_PER_DAY = 24 * 60 * 60 * 1000"
definition HTTP_RATE_LIMIT_STATUS :: int where "HTTP_RATE_LIMIT_STATUS = 429"
definition HTTP_SERVER_ERROR_MIN :: int where "HTTP_SERVER_ERROR_MIN = 500"
definition HTTP_SERVER_ERROR_MAX :: int where "HTTP_SERVER_ERROR_MAX = 599"
definition DEFAULT_MAX_RETRIES :: int where "DEFAULT_MAX_RETRIES = 3"
definition ONE_SECOND_MS :: int where "ONE_SECOND_MS = 1000"

text \<open>The constructor, with its default delay between requests.\<close>

definition new_AmbientWeatherAPI :: "string \<Rightarrow> string option \<Rightarrow> int option \<Rightarrow> AmbientWeatherAPI" where
  "new_AmbientWeatherAPI key appKey delay =
     \<lparr> apiKey = key, applicationKey = appKey,
       baseUrl = ''https://api.ambientweather.net/v1'',
       rateLimitDelay = (case delay of None \<Rightarrow> DEFAULT_RATE_LIMIT_DELAY_MS | Some d \<Rightarrow> d) \<rparr>"

subsection \<open>The network and the world\<close>

text \<open>
  A request of \<open>axios.get\<close> is an URL and its parameters. The answer is the data of a
  response, or an error: one with a response and its HTTP status, or one without a
  response (the network failed). The external service is any function from its own state
  and a request to an answer and a new state. The world of a run is the state of the
  service and the trace of what the program did to the outside: the requests sent and the
  waits, in order.
\<close>

record request =
  url :: string
  param_apiKey :: string
  param_applicationKey :: "string option"
  param_limit :: "int option"
  param_endDate :: "int option"

datatype axios_error = HttpError int | NoResponse

datatype response = Data "WeatherData list" | Failed axios_error

datatype event = Get request | Sleep int

record 's world =
  server :: 's
  trace :: "event list"

type_synonym 's network = "'s \<Rightarrow> request \<Rightarrow> response \<times> 's"

definition axios_get :: "'s network \<Rightarrow> request \<Rightarrow> 's world \<Rightarrow> response \<times> 's world" where
  "axios_get net req w =
     (case net (server w) req of
        (resp, s') \<Rightarrow> (resp, w \<lparr> server := s', trace := trace w @ [Get req] \<rparr>))"

definition sleep :: "int \<Rightarrow> 's world \<Rightarrow> 's world" where
  "sleep ms w = w \<lparr> trace := trace w @ [Sleep ms] \<rparr>"

subsection \<open>One request, with retries\<close>

text \<open>\<open>error.response && (status === 429 || (status >= 500 && status <= 599))\<close>\<close>

definition isRetryableError :: "axios_error \<Rightarrow> bool" where
  "isRetryableError error =
     (case error of
        NoResponse \<Rightarrow> False
      | HttpError status \<Rightarrow>
          status = HTTP_RATE_LIMIT_STATUS \<or>
          (status \<ge> HTTP_SERVER_ERROR_MIN \<and> status \<le> HTTP_SERVER_ERROR_MAX))"

text \<open>\<open>rateLimitDelay * Math.pow(2, retryCount - 1)\<close>; the retry count is at least 1.\<close>

definition calculateBackoffDelay :: "AmbientWeatherAPI \<Rightarrow> int \<Rightarrow> int" where
  "calculateBackoffDelay api retryCount = rateLimitDelay api * 2 ^ nat (retryCount - 1)"

text \<open>
  The loop \<open>while (true)\<close> of \<open>makeRequest\<close>, with its counter \<open>retries\<close>. An exception of
  the source is the result \<open>Inl\<close>.
\<close>

function makeRequest_loop ::
  "'s network \<Rightarrow> AmbientWeatherAPI \<Rightarrow> request \<Rightarrow> int \<Rightarrow> int \<Rightarrow> 's world
     \<Rightarrow> (axios_error + WeatherData list) \<times> 's world" where
  "makeRequest_loop net api req maxRetries retries w =
     (case axios_get net req w of
        (Data d, w1) \<Rightarrow> (Inr d, w1)
      | (Failed error, w1) \<Rightarrow>
          if isRetryableError error
          then (if retries \<ge> maxRetries then (Inl error, w1)
                else makeRequest_loop net api req maxRetries (retries + 1)
                       (sleep (calculateBackoffDelay api (retries + 1)) w1))
          else (Inl error, w1))"
  by pat_completeness auto
termination
  by (relation "measure (\<lambda>(net, api, req, maxRetries, retries, w). nat (maxRetries - retries))")
     auto

declare makeRequest_loop.simps [simp del]

definition makeRequest ::
  "'s network \<Rightarrow> AmbientWeatherAPI \<Rightarrow> request \<Rightarrow> int \<Rightarrow> 's world
     \<Rightarrow> (axios_error + WeatherData list) \<times> 's world" where
  "makeRequest net api req maxRetries w = makeRequest_loop net api req maxRetries 0 w"

text \<open>\<open>createRequestParams\<close>: \<open>if (limit)\<close> leaves a limit of 0 out.\<close>

definition createRequestParams ::
  "AmbientWeatherAPI \<Rightarrow> string \<Rightarrow> int option \<Rightarrow> int \<Rightarrow> request" where
  "createRequestParams api u endDate limit =
     \<lparr> url = u, param_apiKey = apiKey api, param_applicationKey = applicationKey api,
       param_limit = (if limit \<noteq> 0 then Some limit else None),
       param_endDate = endDate \<rparr>"

text \<open>\<open>getDeviceData\<close>: its \<open>catch\<close> logs the error and throws it again.\<close>

definition getDeviceData ::
  "'s network \<Rightarrow> AmbientWeatherAPI \<Rightarrow> string \<Rightarrow> int option \<Rightarrow> int \<Rightarrow> 's world
     \<Rightarrow> (axios_error + WeatherData list) \<times> 's world" where
  "getDeviceData net api macAddress endDate limit w =
     makeRequest net api
       (createRequestParams api (baseUrl api @ ''/devices/'' @ macAddress) endDate limit)
       DEFAULT_MAX_RETRIES w"


subsection \<open>The fetch of a date range, in chunks\<close>

text \<open>The variables of the loop of \<open>fetchDataInChunks\<close>.\<close>

record fetch_state =
  currentEnd :: int
  allData :: "WeatherData list"
  reachedStartDate :: bool
  fetchCount :: nat

text \<open>
  \<open>findDateBounds\<close>: earliest date, latest date, earliest timestamp. It is called on a
  chunk that is not empty.
\<close>

definition findDateBounds :: "WeatherData list \<Rightarrow> int \<times> int \<times> int" where
  "findDateBounds chunkData =
     (let timestamps = map dateutc chunkData;
          earliestTimestamp = Min (set timestamps);
          latestTimestamp = Max (set timestamps)
      in (earliestTimestamp, latestTimestamp, earliestTimestamp))"

text \<open>
  \<open>processChunk\<close> pushes the chunk on \<open>allData\<close> (returned here as the third component)
  and says whether to go on and with which end date.
\<close>

definition processChunk ::
  "host \<Rightarrow> WeatherData list \<Rightarrow> int \<Rightarrow> WeatherData list
     \<Rightarrow> bool \<times> int \<times> WeatherData list" where
  "processChunk h chunkData startDate allData0 =
     (let (earliestDate, latestDate, earliestTimestamp) = findDateBounds chunkData;
          allData1 = allData0 @ chunkData
      in if earliestDate \<le> startDate
         then (False, now h, allData1)
         else (True, earliestTimestamp - ONE_SECOND_MS, allData1))"

definition delayBeforeNextRequest :: "AmbientWeatherAPI \<Rightarrow> 's world \<Rightarrow> 's world" where
  "delayBeforeNextRequest api w = sleep (rateLimitDelay api) w"

text \<open>
  The loop \<open>while (!reachedStartDate && fetchCount < MAX_FETCH_OPERATIONS)\<close>. The result
  is the exception that left the loop, if one did, the variables of the loop when it was
  left, and the world.
\<close>

function fetch_loop ::
  "'s network \<Rightarrow> AmbientWeatherAPI \<Rightarrow> host \<Rightarrow> string \<Rightarrow> int \<Rightarrow> fetch_state \<Rightarrow> 's world
     \<Rightarrow> axios_error option \<times> fetch_state \<times> 's world" where
  "fetch_loop net api h macAddress startDate st w =
     (if \<not> reachedStartDate st \<and> fetchCount st < MAX_FETCH_OPERATIONS
      then
        (case getDeviceData net api macAddress (Some (currentEnd st))
                DEFAULT_READINGS_PER_CHUNK w of
           (Inl error, w1) \<Rightarrow> (Some error, st \<lparr> fetchCount := fetchCount st + 1 \<rparr>, w1)
         | (Inr chunkData, w1) \<Rightarrow>
             if length chunkData = 0
             then (None, st \<lparr> fetchCount := fetchCount st + 1 \<rparr>, w1)
             else
               (case processChunk h chunkData startDate (allData st) of
                  (shouldContinue, nextEndDate, allData1) \<Rightarrow>
                    if shouldContinue
                    then fetch_loop net api h macAddress startDate
                           (st \<lparr> fetchCount := fetchCount st + 1, allData := allData1,
                                 reachedStartDate := \<not> shouldContinue,
                                 currentEnd := nextEndDate \<rparr>)
                           (delayBeforeNextRequest api w1)
                    else fetch_loop net api h macAddress startDate
                           (st \<lparr> fetchCount := fetchCount st + 1, allData := allData1,
                                 reachedStartDate := \<not> shouldContinue \<rparr>)
                           w1))
      else (None, st, w))"
  by pat_completeness auto
termination
  by (relation "measure (\<lambda>(net, api, h, macAddress, startDate, st, w).
                   MAX_FETCH_OPERATIONS - fetchCount st)")
     auto

declare fetch_loop.simps [simp del]

definition fetchDataInChunks ::
  "'s network \<Rightarrow> AmbientWeatherAPI \<Rightarrow> host \<Rightarrow> string \<Rightarrow> int \<Rightarrow> int \<Rightarrow> 's world
     \<Rightarrow> (axios_error + WeatherData list) \<times> 's world" where
  "fetchDataInChunks net api h macAddress startDate endDate w =
     (case fetch_loop net api h macAddress startDate
             \<lparr> currentEnd = endDate, allData = [], reachedStartDate = False,
               fetchCount = 0 \<rparr> w of
        (Some error, st, w1) \<Rightarrow> (Inl error, w1)
      | (None, st, w1) \<Rightarrow> (Inr (allData st), w1))"

definition filterDataByDateRange :: "WeatherData list \<Rightarrow> int \<Rightarrow> int \<Rightarrow> WeatherData list" where
  "filterDataByDateRange data startDate endDate =
     (let startTime = startDate; endTime = endDate
      in filter (\<lambda>entry. dateutc entry \<ge> startTime \<and> dateutc entry \<le> endTime) data)"

text \<open>The \<open>sortDataChronologically\<close> of the API class: a stable sort of a copy.\<close>

definition api_sortDataChronologically :: "WeatherData list \<Rightarrow> WeatherData list" where
  "api_sortDataChronologically data = sort_key dateutc data"

definition processRetrievedData :: "WeatherData list \<Rightarrow> int \<Rightarrow> int \<Rightarrow> WeatherData list" where
  "processRetrievedData allData0 startDate endDate =
     (let filteredData = filterDataByDateRange allData0 startDate endDate
      in api_sortDataChronologically filteredData)"

text \<open>\<open>Math.ceil((endDate - startDate) / MILLISECONDS_PER_DAY)\<close>\<close>

definition calculateDaysBetweenDates :: "int \<Rightarrow> int \<Rightarrow> int" where
  "calculateDaysBetweenDates startDate endDate =
     - ((startDate - endDate) div MILLISECONDS_PER_DAY)"

text \<open>
  \<open>logDateRangeInfo\<close> computes \<open>daysToFetch\<close> to print it; the value is returned here in
  place of the console output.
\<close>

definition logDateRangeInfo :: "int \<Rightarrow> int \<Rightarrow> int \<Rightarrow> int" where
  "logDateRangeInfo startDate endDate maxDays =
     (let totalDaysDiff = calculateDaysBetweenDates startDate endDate;
          daysToFetch = min totalDaysDiff maxDays
      in daysToFetch)"

text \<open>
  \<open>getDeviceDataForDateRange\<close>, with its defaults: the end date is now, the maximum is
  365 days. Its \<open>catch\<close> logs the error and throws it again.
\<close>

definition getDeviceDataForDateRange ::
  "'s network \<Rightarrow> AmbientWeatherAPI \<Rightarrow> host \<Rightarrow> string \<Rightarrow> int \<Rightarrow> int option \<Rightarrow> int option
     \<Rightarrow> 's world \<Rightarrow> (axios_error + WeatherData list) \<times> 's world" where
  "getDeviceDataForDateRange net api h macAddress startDate endDateArg maxDaysArg w =
     (let endDate = (case endDateArg of None \<Rightarrow> now h | Some e \<Rightarrow> e);
          maxDays = (case maxDaysArg of None \<Rightarrow> 365 | Some d \<Rightarrow> d);
          logged = logDateRangeInfo startDate endDate maxDays
      in case fetchDataInChunks net api h macAddress startDate endDate w of
           (Inl error, w1) \<Rightarrow> (Inl error, w1)
         | (Inr allData1, w1) \<Rightarrow> (Inr (processRetrievedData allData1 startDate endDate), w1))"


section \<open>Vocabulary of the properties\<close>

text \<open>The readings of a list that fall in the hour \<open>k\<close>, and how many readings of a list
  are in the chill range.\<close>

definition samplesOfHour :: "host \<Rightarrow> hourKey \<Rightarrow> WeatherData list \<Rightarrow> WeatherData list" where
  "samplesOfHour h k xs = filter (\<lambda>e. createHourKey h (dateutc e) = k) xs"

definition inRangeCount :: "ChillHourCalculator \<Rightarrow> WeatherData list \<Rightarrow> nat" where
  "inRangeCount c es = length (filter (\<lambda>e. minTemp c \<le> tempf e \<and> tempf e \<le> maxTemp c) es)"

definition addReadings :: "ChillHourCalculator \<Rightarrow> hourData \<Rightarrow> WeatherData list \<Rightarrow> hourData" where
  "addReadings c v es =
     \<lparr> temps = temps v @ map tempf es, inRange = inRange v + inRangeCount c es \<rparr>"

definition hourIsChill :: "ChillHourCalculator \<Rightarrow> host \<Rightarrow> WeatherData list \<Rightarrow> hourKey \<Rightarrow> bool" where
  "hourIsChill c h xs k \<longleftrightarrow>
     samplesOfHour h k xs \<noteq> [] \<and>
     real (inRangeCount c (samplesOfHour h k xs)) / real (length (samplesOfHour h k xs))
       \<ge> 1 / 2"

text \<open>The time value of local midnight at the start of the civil day \<open>y-m-d\<close>.\<close>

definition local_midnight :: "host \<Rightarrow> int \<Rightarrow> int \<Rightarrow> int \<Rightarrow> int" where
  "local_midnight h y m d = UTC h (days_from_civil y m d * msPerDay)"

text \<open>
  The answers of the service to a request sent again and again from the state \<open>s\<close>:
  \<open>attempt net req s n\<close> is the answer to the sending number \<open>n\<close> (from 0) and the state
  after it. \<open>retries_made\<close> counts the answers at the head of this sequence that are
  retryable errors, up to a budget.
\<close>

fun attempt :: "'s network \<Rightarrow> request \<Rightarrow> 's \<Rightarrow> nat \<Rightarrow> response \<times> 's" where
  "attempt net req s 0 = net s req"
| "attempt net req s (Suc n) = attempt net req (snd (net s req)) n"

definition retryable_response :: "response \<Rightarrow> bool" where
  "retryable_response r = (case r of Data d \<Rightarrow> False | Failed e \<Rightarrow> isRetryableError e)"

fun retries_made :: "'s network \<Rightarrow> request \<Rightarrow> 's \<Rightarrow> nat \<Rightarrow> nat" where
  "retries_made net req s 0 = 0"
| "retries_made net req s (Suc budget) =
     (if retryable_response (fst (net s req))
      then Suc (retries_made net req (snd (net s req)) budget) else 0)"

definition outcome :: "response \<Rightarrow> axios_error + WeatherData list" where
  "outcome r = (case r of Data d \<Rightarrow> Inr d | Failed e \<Rightarrow> Inl e)"

text \<open>
  The trace of a request sent \<open>k + 1\<close> times, the first \<open>r\<close> retries being in the past:
  after the sending number \<open>i\<close> comes a wait of \<open>rateLimitDelay * 2 ^ i\<close>, and the last
  sending has no wait after it.
\<close>

definition retry_trace :: "AmbientWeatherAPI \<Rightarrow> request \<Rightarrow> nat \<Rightarrow> nat \<Rightarrow> event list" where
  "retry_trace api req r k =
     concat (map (\<lambda>i. [Get req, Sleep (rateLimitDelay api * 2 ^ i)]) [r..<r + k]) @ [Get req]"

definition isGet :: "event \<Rightarrow> bool" where
  "isGet e = (case e of Get r \<Rightarrow> True | Sleep ms \<Rightarrow> False)"

definition count_gets :: "event list \<Rightarrow> nat" where
  "count_gets evs = length (filter isGet evs)"

text \<open>The request of the page that ends at \<open>cursor\<close>.\<close>

definition page_request :: "AmbientWeatherAPI \<Rightarrow> string \<Rightarrow> int \<Rightarrow> request" where
  "page_request api macAddress cursor =
     createRequestParams api (baseUrl api @ ''/devices/'' @ macAddress) (Some cursor)
       DEFAULT_READINGS_PER_CHUNK"

text \<open>What a run of the loop of \<open>fetchDataInChunks\<close> from \<open>(st, w)\<close> to \<open>(st', w')\<close> keeps:
  the count of fetches grows and stays under the cap, the trace grows, and each fetch
  sends between one and four requests.\<close>

definition fetch_bounds :: "fetch_state \<Rightarrow> 's world \<Rightarrow> fetch_state \<Rightarrow> 's world \<Rightarrow> bool" where
  "fetch_bounds st w st' w' \<longleftrightarrow>
     fetchCount st \<le> fetchCount st' \<and>
     (fetchCount st \<le> MAX_FETCH_OPERATIONS \<longrightarrow> fetchCount st' \<le> MAX_FETCH_OPERATIONS) \<and>
     (\<exists>evs. trace w' = trace w @ evs \<and>
            fetchCount st' - fetchCount st \<le> count_gets evs \<and>
            count_gets evs \<le> 4 * (fetchCount st' - fetchCount st))"

text \<open>The variables of the loop of \<open>fetchDataInChunks\<close> before its first turn.\<close>

definition initial_fetch_state :: "int \<Rightarrow> fetch_state" where
  "initial_fetch_state endDate =
     \<lparr> currentEnd = endDate, allData = [], reachedStartDate = False, fetchCount = 0 \<rparr>"

section \<open>Test data\<close>

definition reading :: "int \<Rightarrow> real \<Rightarrow> WeatherData" where
  "reading t f = \<lparr> dateutc = t, tempf = f \<rparr>"

text \<open>Four readings in the hour 2023-01-15 03:00 UTC, two of them from 32 to 45 degrees,
  and three in the hour after it, one of them in that range.\<close>

definition hour3 :: "WeatherData list" where
  "hour3 = [reading 1673751600000 40, reading 1673751900000 33,
            reading 1673752200000 50, reading 1673752500000 20]"

definition hour4 :: "WeatherData list" where
  "hour4 = [reading 1673755200000 40, reading 1673755500000 50, reading 1673755800000 20]"

text \<open>One reading in the hour 05:00 of the same day, out of that range.\<close>

definition hour5 :: "WeatherData list" where
  "hour5 = [reading 1673758800000 50]"

definition api0 :: AmbientWeatherAPI where
  "api0 = new_AmbientWeatherAPI ''key'' None None"

definition world0 :: "nat world" where
  "world0 = \<lparr> server = 0, trace = [] \<rparr>"

text \<open>Services whose state counts the requests received: one that answers every request
  with the same page, one that answers 429 twice and then a page, one that always answers
  401.\<close>

definition server_const :: "WeatherData list \<Rightarrow> nat network" where
  "server_const page n req = (Data page, Suc n)"




text \<open>A page with the same reading twice, and a page whose two readings are 400 days
  apart.\<close>

definition page_dup :: "WeatherData list" where
  "page_dup = [reading 5 40, reading 5 40, reading 0 40]"

definition page_year :: "WeatherData list" where
  "page_year = [reading 34560000000 40, reading 0 40]"


definition store0 :: store where
  "store0 = \<lparr> arrays = (\<lambda>r. if r = 0 then Some (rev hour3) else None), nextRef = 1 \<rparr>"


section \<open>Doubles\<close>

lemma round_even_error: "\<bar>of_int (round_even x) - x\<bar> \<le> 1 / 2"
proof -
  have "of_int \<lfloor>x\<rfloor> \<le> x" "x < of_int \<lfloor>x\<rfloor> + 1" by linarith+
  then show ?thesis by (auto simp: round_even_def Let_def)
qed

lemma double_0: "double 0 = 0"
  by (simp add: double_def)

lemma double_error:
  assumes "0 < x"
  shows "\<bar>double x - x\<bar> \<le> x / 2 ^ 53"
proof -
  define e where "e = \<lfloor>log 2 x\<rfloor>"
  have "of_int e \<le> log 2 x" by (simp add: e_def)
  then have lo: "2 powr of_int e \<le> x" using assms by (simp add: le_log_iff)
  have scale: "2 powr of_int (52 - e) * 2 powr of_int (e - 52) = (1::real)"
    by (simp add: powr_add [symmetric])
  have pos: "(0::real) < 2 powr of_int (e - 52)" by simp
  have d: "double x = of_int (round_even (x * 2 powr of_int (52 - e))) * 2 powr of_int (e - 52)"
    using assms by (simp add: double_def e_def Let_def)
  have "double x - x =
      (of_int (round_even (x * 2 powr of_int (52 - e))) - x * 2 powr of_int (52 - e))
        * 2 powr of_int (e - 52)"
    using scale by (simp add: d algebra_simps)
  then have "\<bar>double x - x\<bar> =
      \<bar>of_int (round_even (x * 2 powr of_int (52 - e))) - x * 2 powr of_int (52 - e)\<bar>
        * 2 powr of_int (e - 52)"
    using pos by (simp add: abs_mult)
  also have "\<dots> \<le> (1 / 2) * 2 powr of_int (e - 52)"
    using round_even_error [of "x * 2 powr of_int (52 - e)"] pos
    by (intro mult_right_mono) simp_all
  also have "\<dots> = 2 powr of_int e / 2 ^ 53"
  proof -
    have "2 powr of_int (e - 52) = 2 powr of_int e * 2 powr (- 52 :: real)"
      by (simp add: powr_add [symmetric])
    also have "2 powr (- 52 :: real) = 1 / 2 ^ 52"
      by (simp add: powr_minus inverse_eq_divide)
    finally show ?thesis by simp
  qed
  also have "\<dots> \<le> x / 2 ^ 53" using lo by (simp add: divide_right_mono)
  finally show ?thesis .
qed

lemma double_eq:
  assumes "0 < x" and "2 ^ 52 \<le> x * 2 ^ n" and "x * 2 ^ n < 2 ^ 53"
  shows "double x = of_int (round_even (x * 2 ^ n)) / 2 ^ n"
proof -
  have p: "(2::real) ^ n = 2 powr of_int (int n)" by (simp add: powr_realpow)
  have a: "2 powr of_int (52 - int n) \<le> x"
  proof -
    have "(2::real) powr of_int (52 - int n) = 2 powr 52 / 2 powr of_int (int n)"
      by (simp add: powr_diff)
    also have "\<dots> = 2 ^ 52 / 2 ^ n" by (simp add: p)
    also have "\<dots> \<le> x" using assms(2) by (simp add: divide_le_eq)
    finally show ?thesis .
  qed
  have b: "x < 2 powr (of_int (52 - int n) + 1)"
  proof -
    have "of_int (52 - int n) + 1 = (53::real) - of_int (int n)" by simp
    then have "(2::real) powr (of_int (52 - int n) + 1) = 2 powr 53 / 2 powr of_int (int n)"
      by (simp only: powr_diff)
    then have "(2::real) powr (of_int (52 - int n) + 1) = 2 ^ 53 / 2 ^ n" by (simp add: p)
    moreover have "x < 2 ^ 53 / 2 ^ n" using assms(3) by (simp add: less_divide_eq)
    ultimately show ?thesis by simp
  qed
  have "of_int (52 - int n) \<le> log 2 x" using a assms(1) by (simp add: le_log_iff)
  moreover have "log 2 x < of_int (52 - int n) + 1"
    using b assms(1) by (simp add: log_less_iff)
  ultimately have e: "\<lfloor>log 2 x\<rfloor> = 52 - int n" by (rule floor_unique)
  show ?thesis
    using assms(1)
    by (simp add: double_def e Let_def powr_realpow powr_minus divide_inverse)
qed

lemma double_third: "double (1 / 3) = 6004799503160661 / 2 ^ 54"
  by (subst double_eq [where n = 54]) (simp_all add: round_even_def Let_def)

lemma double_third_percent: "double (double (1 / 3) * 100) = 2345624805922133 / 2 ^ 46"
  unfolding double_third
  by (subst double_eq [where n = 47]) (simp_all add: round_even_def Let_def)

lemma double_half_percent: "double (double (1 / 2) * 100) = 50"
proof -
  have h: "double (1 / 2) = 1 / 2"
    by (subst double_eq [where n = 53]) (simp_all add: round_even_def Let_def)
  have "double (double (1 / 2) * 100) = double 50" unfolding h by simp
  also have "\<dots> = 50"
    by (subst double_eq [where n = 47]) (simp_all add: round_even_def Let_def)
  finally show ?thesis .
qed

lemma double_hundred_thirds: "double (100 / 3) = 4691249611844267 / 2 ^ 47"
  by (subst double_eq [where n = 47]) (simp_all add: round_even_def Let_def)

text \<open>The two roundings of the percentage move it from \<open>100 * q\<close> by at most the
  fraction \<open>2^-52 + 2^-106\<close> of it.\<close>

lemma percent_error:
  assumes "0 \<le> q"
  shows "\<bar>double (double q * 100) - 100 * q\<bar> \<le> 100 * q * (1 / 2 ^ 52 + 1 / 2 ^ 106)"
proof (cases "q = 0")
  case True
  then show ?thesis by (simp add: double_0)
next
  case False
  with assms have q: "0 < q" by simp
  define u :: real where "u = 1 / 2 ^ 53"
  define a where "a = double q"
  define b where "b = double (a * 100)"
  have u: "0 < u" "u < 1" by (simp_all add: u_def)
  have ea: "\<bar>a - q\<bar> \<le> q * u" using double_error [OF q] by (simp add: a_def u_def)
  have "q * u < q" using q u by simp
  with ea have a: "0 < a" by linarith
  have au: "a \<le> q + q * u" using ea by linarith
  have eb: "\<bar>b - a * 100\<bar> \<le> a * 100 * u"
    using double_error [of "a * 100"] a by (simp add: b_def u_def)
  have "a * 100 * u \<le> (q + q * u) * 100 * u"
    using au u by (intro mult_right_mono) simp_all
  with eb have "\<bar>b - a * 100\<bar> \<le> (q + q * u) * 100 * u" by linarith
  moreover have "\<bar>a * 100 - 100 * q\<bar> \<le> 100 * (q * u)" using ea by linarith
  ultimately have "\<bar>b - 100 * q\<bar> \<le> (q + q * u) * 100 * u + 100 * (q * u)" by linarith
  also have "\<dots> = 100 * q * (2 * u + u * u)" by (simp add: algebra_simps)
  also have "2 * u + u * u = 1 / 2 ^ 52 + 1 / 2 ^ 106" by (simp add: u_def)
  finally show ?thesis by (simp add: b_def a_def)
qed

section \<open>The calendar of the host on known days\<close>

lemma days_from_civil_known:
  "days_from_civil 1970 1 1 = 0"
  "days_from_civil 2000 3 1 = 11017"
  "days_from_civil 2023 1 15 = 19372"
  by code_simp+

lemma civil_from_days_known:
  "civil_from_days 0 = (1970, 1, 1)"
  "civil_from_days 11016 = (2000, 2, 29)"
  "civil_from_days 19372 = (2023, 1, 15)"
  by code_simp+

lemma createHourKey_utc:
  "createHourKey utc_host 1673751600000 = (2023, 1, 15, 3)"
  "createHourKey utc_host 1673751900000 = (2023, 1, 15, 3)"
  "createHourKey utc_host 1673752200000 = (2023, 1, 15, 3)"
  "createHourKey utc_host 1673752500000 = (2023, 1, 15, 3)"
  "createHourKey utc_host 1673755200000 = (2023, 1, 15, 4)"
  "createHourKey utc_host 1673755500000 = (2023, 1, 15, 4)"
  "createHourKey utc_host 1673755800000 = (2023, 1, 15, 4)"
  "createHourKey utc_host 1673758800000 = (2023, 1, 15, 5)"
  by code_simp+

section \<open>The map of hours\<close>

lemma step_lookup:
  "map_of (groupReadingsByHour_step c h m e) k =
     (if createHourKey h (dateutc e) = k
      then Some (addReadings c
                   (case map_of m k of None \<Rightarrow> \<lparr> temps = [], inRange = 0 \<rparr> | Some v \<Rightarrow> v) [e])
      else map_of m k)"
  by (simp add: groupReadingsByHour_step_def Let_def update_conv' addReadings_def
        inRangeCount_def isTemperatureInChillRange_def)

lemma addReadings_Nil: "addReadings c v [] = v"
  by (simp add: addReadings_def inRangeCount_def)

lemma addReadings_append: "addReadings c (addReadings c v es) fs = addReadings c v (es @ fs)"
  by (simp add: addReadings_def inRangeCount_def)

lemma loop_lookup:
  "map_of (groupReadingsByHour_loop c h m xs) k =
     (case map_of m k of
        Some v \<Rightarrow> Some (addReadings c v (samplesOfHour h k xs))
      | None \<Rightarrow> (if samplesOfHour h k xs = [] then None
                 else Some (addReadings c \<lparr> temps = [], inRange = 0 \<rparr>
                              (samplesOfHour h k xs))))"
proof (induction xs arbitrary: m)
  case Nil
  show ?case by (simp add: samplesOfHour_def addReadings_Nil split: option.splits)
next
  case (Cons e es)
  show ?case
    by (simp add: Cons.IH step_lookup samplesOfHour_def addReadings_append
          split: option.splits)
qed

lemma step_distinct:
  "distinct (map fst m) \<Longrightarrow> distinct (map fst (groupReadingsByHour_step c h m e))"
  by (simp add: groupReadingsByHour_step_def Let_def distinct_update)

lemma loop_distinct:
  "distinct (map fst m) \<Longrightarrow> distinct (map fst (groupReadingsByHour_loop c h m xs))"
  by (induction xs arbitrary: m) (simp_all add: step_distinct)

lemma step_keys:
  "fst ` set (groupReadingsByHour_step c h m e) =
     insert (createHourKey h (dateutc e)) (fst ` set m)"
  by (simp add: groupReadingsByHour_step_def Let_def dom_update)

lemma loop_keys:
  "fst ` set (groupReadingsByHour_loop c h m xs) =
     fst ` set m \<union> (\<lambda>e. createHourKey h (dateutc e)) ` set xs"
  by (induction xs arbitrary: m) (auto simp add: step_keys)

lemma group_lookup:
  "map_of (groupReadingsByHour c h xs) k =
     (if samplesOfHour h k xs = [] then None
      else Some \<lparr> temps = map tempf (samplesOfHour h k xs),
                  inRange = inRangeCount c (samplesOfHour h k xs) \<rparr>)"
  by (simp add: groupReadingsByHour_def loop_lookup addReadings_def)

lemma group_distinct: "distinct (map fst (groupReadingsByHour c h xs))"
  by (simp add: groupReadingsByHour_def loop_distinct)

lemma group_keys:
  "fst ` set (groupReadingsByHour c h xs) = (\<lambda>e. createHourKey h (dateutc e)) ` set xs"
  by (simp add: groupReadingsByHour_def loop_keys)

text \<open>Counting the values of an association list with distinct keys is counting keys.\<close>

lemma chill_keys_finite: "finite {k. \<exists>v. map_of g k = Some v \<and> P v}"
proof (rule finite_subset)
  show "{k. \<exists>v. map_of g k = Some v \<and> P v} \<subseteq> dom (map_of g)" by auto
  show "finite (dom (map_of g))" by (rule finite_dom_map_of)
qed

lemma count_values_card:
  "distinct (map fst g) \<Longrightarrow>
     length (filter (\<lambda>(k, v). P v) g) = card {k. \<exists>v. map_of g k = Some v \<and> P v}"
proof (induction g)
  case Nil
  show ?case by simp
next
  case (Cons p g)
  obtain k v where p: "p = (k, v)" by (cases p)
  let ?S = "{k'. \<exists>v'. map_of g k' = Some v' \<and> P v'}"
  from Cons.prems p have notin: "k \<notin> fst ` set g" and dist: "distinct (map fst g)" by auto
  then have none: "map_of g k = None" by (simp add: map_of_eq_None_iff)
  then have kS: "k \<notin> ?S" by simp
  have fin: "finite ?S" by (rule chill_keys_finite)
  have eq: "{k'. \<exists>v'. map_of (p # g) k' = Some v' \<and> P v'} = (if P v then insert k ?S else ?S)"
    using none by (auto simp: p)
  have len: "length (filter (\<lambda>(k, v). P v) (p # g)) =
      (if P v then Suc (card ?S) else card ?S)"
    using Cons.IH [OF dist] by (simp add: p)
  have "card (if P v then insert k ?S else ?S) = (if P v then Suc (card ?S) else card ?S)"
    using kS fin by simp
  then show ?case by (simp only: eq len)
qed

lemma countChillHours_group:
  "countChillHours (groupReadingsByHour c h xs) =
     (card ((\<lambda>e. createHourKey h (dateutc e)) ` set xs), card {k. hourIsChill c h xs k})"
proof -
  let ?g = "groupReadingsByHour c h xs"
  have "length ?g = length (map fst ?g)" by simp
  also have "\<dots> = card (set (map fst ?g))"
    using group_distinct [of c h xs] by (simp only: distinct_card)
  also have "\<dots> = card ((\<lambda>e. createHourKey h (dateutc e)) ` set xs)"
    by (simp add: group_keys)
  finally have total: "length ?g = card ((\<lambda>e. createHourKey h (dateutc e)) ` set xs)" .
  have "{k. \<exists>v. map_of ?g k = Some v \<and> isChillHour v} = {k. hourIsChill c h xs k}"
    by (auto simp: group_lookup hourIsChill_def isChillHour_def split: if_splits)
  then have chill:
    "length (filter (\<lambda>(k, v). isChillHour v) ?g) = card {k. hourIsChill c h xs k}"
    using count_values_card [OF group_distinct, of isChillHour c h xs] by simp
  show ?thesis by (simp add: countChillHours_def total chill)
qed

lemma countChillHours_le:
  "snd (countChillHours g) \<le> fst (countChillHours g)"
  by (simp add: countChillHours_def)

section \<open>Permutations of the readings\<close>

lemma length_filter_mset: "mset xs = mset ys \<Longrightarrow> length (filter P xs) = length (filter P ys)"
proof -
  assume "mset xs = mset ys"
  then have "mset (filter P xs) = mset (filter P ys)" by simp
  then show ?thesis by (rule mset_eq_length)
qed

lemma hourIsChill_perm:
  assumes "mset xs = mset ys"
  shows "hourIsChill c h xs k = hourIsChill c h ys k"
proof -
  have a: "length (samplesOfHour h k xs) = length (samplesOfHour h k ys)"
    unfolding samplesOfHour_def by (rule length_filter_mset [OF assms])
  have "mset (samplesOfHour h k xs) = mset (samplesOfHour h k ys)"
    unfolding samplesOfHour_def using assms by simp
  then have b: "inRangeCount c (samplesOfHour h k xs) = inRangeCount c (samplesOfHour h k ys)"
    unfolding inRangeCount_def by (rule length_filter_mset)
  have c: "(samplesOfHour h k xs = []) = (samplesOfHour h k ys = [])"
    using a by (metis length_0_conv)
  show ?thesis by (simp add: hourIsChill_def a b c)
qed

lemma countChillHours_perm:
  assumes "mset xs = mset ys"
  shows "countChillHours (groupReadingsByHour c h xs) =
         countChillHours (groupReadingsByHour c h ys)"
proof -
  have "set xs = set ys" using assms by (rule mset_eq_setD)
  then show ?thesis by (simp add: countChillHours_group hourIsChill_perm [OF assms])
qed

lemma map_sort_key: "map f (sort_key f xs) = sort (map f xs)"
proof (rule sym, rule properties_for_sort)
  show "mset (map f (sort_key f xs)) = mset (map f xs)" by simp
  show "sorted (map f (sort_key f xs))" by simp
qed

lemma sorted_timestamps_perm:
  assumes "mset xs = mset ys"
  shows "map dateutc (sortDataChronologically xs) = map dateutc (sortDataChronologically ys)"
proof -
  have "mset (map dateutc xs) = mset (map dateutc ys)" using assms by (metis mset_map)
  then have "sort (map dateutc xs) = sort (map dateutc ys)"
    by (metis sorted_sort mset_sort properties_for_sort)
  then show ?thesis by (simp add: sortDataChronologically_def map_sort_key)
qed

lemma createReport_timestamps:
  assumes "map dateutc xs = map dateutc ys"
  shows "createReport h xs t n = createReport h ys t n"
proof (cases "xs = []")
  case True
  with assms show ?thesis by simp
next
  case False
  have len: "length xs = length ys" using assms by (rule map_eq_imp_length_eq)
  with False have pos: "0 < length xs" "0 < length ys" by auto
  have first: "dateutc (xs ! 0) = dateutc (ys ! 0)"
    using nth_map [of 0 xs dateutc] nth_map [of 0 ys dateutc] pos assms by simp
  have last: "dateutc (xs ! (length xs - 1)) = dateutc (ys ! (length ys - 1))"
    using nth_map [of "length xs - 1" xs dateutc] nth_map [of "length ys - 1" ys dateutc]
      pos len assms by simp
  show ?thesis using first last by (simp add: createReport_def)
qed

lemma reportOfSorted_perm:
  assumes "mset xs = mset ys" and "map dateutc xs = map dateutc ys"
  shows "reportOfSorted c h xs = reportOfSorted c h ys"
proof -
  have len: "length xs = length ys" using assms(1) by (rule mset_eq_length)
  show ?thesis
    by (simp add: reportOfSorted_def len countChillHours_perm [OF assms(1)]
          createReport_timestamps [OF assms(2)] split: prod.splits)
qed


section \<open>The aggregator on the test data\<close>

lemma samplesOfHour_hours:
  "samplesOfHour utc_host (2023, 1, 15, 3) (hour3 @ hour4) = hour3"
  "samplesOfHour utc_host (2023, 1, 15, 4) (hour3 @ hour4) = hour4"
  by (simp_all add: samplesOfHour_def hour3_def hour4_def reading_def createHourKey_utc)

lemma sorted_example:
  "sortDataChronologically (rev hour4 @ rev hour3) = hour3 @ hour4"
  by (simp add: sortDataChronologically_def hour3_def hour4_def reading_def)

lemma group_example:
  "groupReadingsByHour default_calculator utc_host (hour3 @ hour4) =
     [((2023, 1, 15, 3), \<lparr> temps = [40, 33, 50, 20], inRange = 2 \<rparr>),
      ((2023, 1, 15, 4), \<lparr> temps = [40, 50, 20], inRange = 1 \<rparr>)]"
  by (simp add: hour3_def hour4_def reading_def groupReadingsByHour_def
        groupReadingsByHour_step_def createHourKey_utc Let_def
        isTemperatureInChillRange_def default_calculator_def DEFAULT_MIN_TEMP_F_def
        DEFAULT_MAX_TEMP_F_def)

lemma report_example:
  "calculateChillHours default_calculator utc_host (rev hour4 @ rev hour3) =
     \<lparr> totalHours = 2, chillHours = 1, date = ''day to day'', percentChillHours = 50 \<rparr>"
  unfolding calculateChillHours_def sorted_example reportOfSorted_def group_example
  by (simp add: countChillHours_def isChillHour_def createReport_def utc_host_def
        hour3_def hour4_def double_half_percent)

lemma sorted_example3:
  "sortDataChronologically (hour3 @ hour4 @ hour5) = hour3 @ hour4 @ hour5"
  by (simp add: sortDataChronologically_def hour3_def hour4_def hour5_def reading_def)

lemma group_example3:
  "groupReadingsByHour default_calculator utc_host (hour3 @ hour4 @ hour5) =
     [((2023, 1, 15, 3), \<lparr> temps = [40, 33, 50, 20], inRange = 2 \<rparr>),
      ((2023, 1, 15, 4), \<lparr> temps = [40, 50, 20], inRange = 1 \<rparr>),
      ((2023, 1, 15, 5), \<lparr> temps = [50], inRange = 0 \<rparr>)]"
  by (simp add: hour3_def hour4_def hour5_def reading_def groupReadingsByHour_def
        groupReadingsByHour_step_def createHourKey_utc Let_def
        isTemperatureInChillRange_def default_calculator_def DEFAULT_MIN_TEMP_F_def
        DEFAULT_MAX_TEMP_F_def)

lemma report_example3:
  "calculateChillHours default_calculator utc_host (hour3 @ hour4 @ hour5) =
     \<lparr> totalHours = 3, chillHours = 1, date = ''day to day'',
       percentChillHours = 2345624805922133 / 2 ^ 46 \<rparr>"
  unfolding calculateChillHours_def sorted_example3 reportOfSorted_def group_example3
  by (simp add: countChillHours_def isChillHour_def createReport_def utc_host_def
        hour3_def hour4_def hour5_def double_third_percent)

section \<open>Properties of the aggregator\<close>

text \<open>
  C3. In the map built by \<open>groupReadingsByHour\<close>, the value \<open>b\<close> of an hour \<open>k\<close> holds
  the readings of that hour: there is at least one, \<open>temps b\<close> are their temperatures,
  \<open>inRange b\<close> is the number of them with \<open>minTemp \<le> tempf \<le> maxTemp\<close> (both bounds
  included), and \<open>isChillHour b\<close> holds exactly when that number divided by the number of
  readings of the hour is at least one half.
\<close>

theorem chill_hour_iff_half_in_range:
  assumes "map_of (groupReadingsByHour c h sortedData) k = Some b"
  shows "samplesOfHour h k sortedData \<noteq> [] \<and>
         temps b = map tempf (samplesOfHour h k sortedData) \<and>
         inRange b = length (filter (\<lambda>e. minTemp c \<le> tempf e \<and> tempf e \<le> maxTemp c)
                               (samplesOfHour h k sortedData)) \<and>
         (isChillHour b \<longleftrightarrow>
            real (length (filter (\<lambda>e. minTemp c \<le> tempf e \<and> tempf e \<le> maxTemp c)
                            (samplesOfHour h k sortedData)))
              / real (length (samplesOfHour h k sortedData)) \<ge> 1 / 2)"
proof -
  let ?S = "samplesOfHour h k sortedData"
  from assms have ne: "?S \<noteq> []"
    by (simp add: group_lookup split: if_splits)
  with assms have b: "b = \<lparr> temps = map tempf ?S, inRange = inRangeCount c ?S \<rparr>"
    by (simp add: group_lookup)
  show ?thesis
    using ne by (simp add: b isChillHour_def inRangeCount_def)
qed

text \<open>On the test data: two of four readings in range make a chill hour, one of three
  does not.\<close>

theorem chill_hour_iff_half_in_range_witness:
  "map_of (groupReadingsByHour default_calculator utc_host (hour3 @ hour4)) (2023, 1, 15, 3)
     = Some \<lparr> temps = [40, 33, 50, 20], inRange = 2 \<rparr> \<and>
   isChillHour \<lparr> temps = [40, 33, 50, 20], inRange = 2 \<rparr> \<and>
   map_of (groupReadingsByHour default_calculator utc_host (hour3 @ hour4)) (2023, 1, 15, 4)
     = Some \<lparr> temps = [40, 50, 20], inRange = 1 \<rparr> \<and>
   \<not> isChillHour \<lparr> temps = [40, 50, 20], inRange = 1 \<rparr>"
proof -
  have m3: "map_of (groupReadingsByHour default_calculator utc_host (hour3 @ hour4))
      (2023, 1, 15, 3) = Some \<lparr> temps = [40, 33, 50, 20], inRange = 2 \<rparr>"
    by (simp add: group_lookup samplesOfHour_hours)
       (simp add: hour3_def reading_def inRangeCount_def default_calculator_def
          DEFAULT_MIN_TEMP_F_def DEFAULT_MAX_TEMP_F_def)
  have m4: "map_of (groupReadingsByHour default_calculator utc_host (hour3 @ hour4))
      (2023, 1, 15, 4) = Some \<lparr> temps = [40, 50, 20], inRange = 1 \<rparr>"
    by (simp add: group_lookup samplesOfHour_hours)
       (simp add: hour4_def reading_def inRangeCount_def default_calculator_def
          DEFAULT_MIN_TEMP_F_def DEFAULT_MAX_TEMP_F_def)
  have c3: "isChillHour \<lparr> temps = [40, 33, 50, 20], inRange = 2 \<rparr>"
    using chill_hour_iff_half_in_range [OF m3]
    by (simp add: samplesOfHour_hours)
       (simp add: hour3_def reading_def default_calculator_def
          DEFAULT_MIN_TEMP_F_def DEFAULT_MAX_TEMP_F_def)
  have c4: "\<not> isChillHour \<lparr> temps = [40, 50, 20], inRange = 1 \<rparr>"
    using chill_hour_iff_half_in_range [OF m4]
    by (simp add: samplesOfHour_hours)
       (simp add: hour4_def reading_def default_calculator_def
          DEFAULT_MIN_TEMP_F_def DEFAULT_MAX_TEMP_F_def)
  from m3 c3 m4 c4 show ?thesis by blast
qed

text \<open>
  C6. For every list of readings the report of \<open>calculateChillHours\<close>, and the report of
  \<open>calculateSeasonChillHours\<close>, has \<open>0 \<le> chillHours \<le> totalHours\<close>. Its
  \<open>percentChillHours\<close> is 0 when \<open>totalHours = 0\<close>. When \<open>totalHours > 0\<close> it is the double
  \<open>(chillHours / totalHours) * 100\<close>, rounded after the division and after the
  multiplication, and it is away from the real \<open>100 * chillHours / totalHours\<close> by at most
  the fraction \<open>2^-52 + 2^-106\<close> of that number.
\<close>

theorem report_invariant:
  "0 \<le> chillHours (calculateChillHours c h data) \<and>
   chillHours (calculateChillHours c h data) \<le> totalHours (calculateChillHours c h data) \<and>
   (if totalHours (calculateChillHours c h data) > 0
    then percentChillHours (calculateChillHours c h data) =
           double (double (real (chillHours (calculateChillHours c h data))
                           / real (totalHours (calculateChillHours c h data))) * 100) \<and>
         \<bar>percentChillHours (calculateChillHours c h data)
            - 100 * (real (chillHours (calculateChillHours c h data))
                     / real (totalHours (calculateChillHours c h data)))\<bar>
           \<le> 100 * (real (chillHours (calculateChillHours c h data))
                     / real (totalHours (calculateChillHours c h data)))
                * (1 / 2 ^ 52 + 1 / 2 ^ 106)
    else percentChillHours (calculateChillHours c h data) = 0) \<and>
   chillHours (calculateSeasonChillHours c h data m y)
     \<le> totalHours (calculateSeasonChillHours c h data m y) \<and>
   (if totalHours (calculateSeasonChillHours c h data m y) > 0
    then percentChillHours (calculateSeasonChillHours c h data m y) =
           double (double (real (chillHours (calculateSeasonChillHours c h data m y))
                           / real (totalHours (calculateSeasonChillHours c h data m y)))
                   * 100) \<and>
         \<bar>percentChillHours (calculateSeasonChillHours c h data m y)
            - 100 * (real (chillHours (calculateSeasonChillHours c h data m y))
                     / real (totalHours (calculateSeasonChillHours c h data m y)))\<bar>
           \<le> 100 * (real (chillHours (calculateSeasonChillHours c h data m y))
                     / real (totalHours (calculateSeasonChillHours c h data m y)))
                * (1 / 2 ^ 52 + 1 / 2 ^ 106)
    else percentChillHours (calculateSeasonChillHours c h data m y) = 0)"
proof -
  let ?ok = "\<lambda>r. chillHours r \<le> totalHours r \<and>
      (if totalHours r > 0
       then percentChillHours r =
              double (double (real (chillHours r) / real (totalHours r)) * 100) \<and>
            \<bar>percentChillHours r - 100 * (real (chillHours r) / real (totalHours r))\<bar>
              \<le> 100 * (real (chillHours r) / real (totalHours r))
                   * (1 / 2 ^ 52 + 1 / 2 ^ 106)
       else percentChillHours r = 0)"
  have none: "?ok (createEmptyReport msg)" for msg
    by (simp add: createEmptyReport_def)
  have made: "?ok (createReport h xs t n)" if "n \<le> t" for xs t n
  proof -
    have f: "totalHours (createReport h xs t n) = t" "chillHours (createReport h xs t n) = n"
      "percentChillHours (createReport h xs t n) =
         (if t > 0 then double (double (real n / real t) * 100) else 0)"
      by (simp_all add: createReport_def Let_def)
    have q: "0 \<le> real n / real t" by simp
    show ?thesis
      unfolding f using that percent_error [OF q] by simp
  qed
  have one: "?ok (calculateChillHours c h xs)" for xs
  proof (cases "length (sortDataChronologically xs) = 0")
    case True
    then have eq: "calculateChillHours c h xs = createEmptyReport ''No data available''"
      by (simp add: calculateChillHours_def reportOfSorted_def)
    show ?thesis unfolding eq by (fact none)
  next
    case False
    obtain t n where cc:
      "countChillHours (groupReadingsByHour c h (sortDataChronologically xs)) = (t, n)"
      by (cases "countChillHours (groupReadingsByHour c h (sortDataChronologically xs))")
    have le: "n \<le> t"
      using countChillHours_le [of "groupReadingsByHour c h (sortDataChronologically xs)"]
      by (simp add: cc)
    have eq: "calculateChillHours c h xs = createReport h (sortDataChronologically xs) t n"
      using False by (simp add: calculateChillHours_def reportOfSorted_def cc)
    show ?thesis unfolding eq by (fact made [OF le])
  qed
  obtain s e where se: "determineSeasonDates h m y = (s, e)"
    by (cases "determineSeasonDates h m y")
  have season: "?ok (calculateSeasonChillHours c h data m y)"
  proof (cases "length (filterDataForSeason data s e) = 0")
    case True
    then have eq: "calculateSeasonChillHours c h data m y =
        createEmptyReport (toLocaleDateString h s @ '' to '' @ toLocaleDateString h e @
                           '' (no data)'')"
      by (simp add: calculateSeasonChillHours_def se)
    show ?thesis unfolding eq by (fact none)
  next
    case False
    then have eq: "calculateSeasonChillHours c h data m y =
        calculateChillHours c h (filterDataForSeason data s e)"
      by (simp add: calculateSeasonChillHours_def se)
    show ?thesis unfolding eq by (fact one)
  qed
  have "0 \<le> chillHours (calculateChillHours c h data)" by simp
  with one [of data] season show ?thesis by blast
qed

text \<open>On the test data: two hours, one chill hour, 50 percent.\<close>

theorem report_invariant_witness:
  "totalHours (calculateChillHours default_calculator utc_host (rev hour4 @ rev hour3)) = 2 \<and>
   chillHours (calculateChillHours default_calculator utc_host (rev hour4 @ rev hour3)) = 1 \<and>
   percentChillHours (calculateChillHours default_calculator utc_host (rev hour4 @ rev hour3))
     = 50"
  using report_invariant [of default_calculator utc_host "rev hour4 @ rev hour3" 9 None]
  by (simp add: report_example)

text \<open>
  With one chill hour of three the percentage is the double 33.33333333333333, which is
  neither the real \<open>100 / 3\<close> nor the double nearest to it.
\<close>

theorem report_percent_counterexample:
  "totalHours (calculateChillHours default_calculator utc_host (hour3 @ hour4 @ hour5)) = 3 \<and>
   chillHours (calculateChillHours default_calculator utc_host (hour3 @ hour4 @ hour5)) = 1 \<and>
   percentChillHours (calculateChillHours default_calculator utc_host (hour3 @ hour4 @ hour5))
     = 2345624805922133 / 2 ^ 46 \<and>
   (2345624805922133 / 2 ^ 46 :: real) \<noteq> 100 / 3 \<and>
   double (100 / 3) = 4691249611844267 / 2 ^ 47 \<and>
   (2345624805922133 / 2 ^ 46 :: real) \<noteq> 4691249611844267 / 2 ^ 47"
  by (simp add: report_example3 double_hundred_thirds)

text \<open>
  C7. \<open>calculateChillHours\<close> returns the same report (total hours, chill hours,
  percentage and label of the period) on a list of readings and on every permutation of
  it.
\<close>

theorem aggregate_permutation_invariant:
  assumes "mset xs = mset ys"
  shows "calculateChillHours c h xs = calculateChillHours c h ys"
proof -
  have "mset (sortDataChronologically xs) = mset (sortDataChronologically ys)"
    using assms by (simp add: sortDataChronologically_def)
  then show ?thesis
    unfolding calculateChillHours_def
    by (rule reportOfSorted_perm) (rule sorted_timestamps_perm [OF assms])
qed

text \<open>On the test data, in order and reversed.\<close>

theorem aggregate_permutation_invariant_witness:
  "mset (hour3 @ hour4) = mset (rev hour4 @ rev hour3) \<and>
   calculateChillHours default_calculator utc_host (hour3 @ hour4) =
   calculateChillHours default_calculator utc_host (rev hour4 @ rev hour3)"
proof -
  have p: "mset (hour3 @ hour4) = mset (rev hour4 @ rev hour3)" by simp
  from p aggregate_permutation_invariant [OF p] show ?thesis by blast
qed


section \<open>The season\<close>

lemma days_from_civil_day: "days_from_civil y m d = days_from_civil y m 1 + d - 1"
  by (simp add: days_from_civil_def Let_def)

lemma MakeDay_month:
  "0 \<le> mi \<Longrightarrow> mi \<le> 11 \<Longrightarrow> MakeDay y mi d = days_from_civil y (mi + 1) 1 + d - 1"
  by (simp add: MakeDay_def div_pos_pos_trivial mod_pos_pos_trivial)

lemma new_Date_month:
  "0 \<le> mi \<Longrightarrow> mi \<le> 11 \<Longrightarrow> 99 < y \<Longrightarrow>
     new_Date h y mi d = UTC h ((days_from_civil y (mi + 1) 1 + d - 1) * msPerDay)"
  by (simp add: new_Date_def MakeDay_month)

lemma day_before_september_2023: "days_from_civil 2023 9 1 - 1 = days_from_civil 2023 8 31"
  by code_simp

lemma local_midnight_utc:
  "local_midnight utc_host 2022 9 1 = 1661990400000"
  "local_midnight utc_host 2023 8 31 = 1693440000000"
  "local_midnight utc_host 2023 3 1 = 1677628800000"
  "local_midnight utc_host 2023 12 31 = 1703980800000"
  "local_midnight utc_host 2023 1 1 = 1672531200000"
  by code_simp+

text \<open>
  C4. For a start month from 1 to 12 and a target year after 100 (the \<open>Date\<close> constructor
  reads a year from 0 to 99 as 1900 + year, and the source takes the current year for the
  year 0), the season of \<open>determineSeasonDates\<close> is: for a start month up to 6, from the
  first day of the start month of the target year to December 31 of the target year; for
  a later start month, from the first day of the start month of the year before to the
  day before the first day of the start month of the target year. Both ends are local
  midnights. Start month 9 and year 2023 give 2022-09-01 to 2023-08-31; start month 3 and
  year 2023 give 2023-03-01 to 2023-12-31.
\<close>

theorem season_window:
  assumes "1 \<le> seasonStartMonth" and "seasonStartMonth \<le> 12" and "100 < y"
  shows "determineSeasonDates h seasonStartMonth (Some y) =
           (if seasonStartMonth \<le> 6
            then (local_midnight h y seasonStartMonth 1, local_midnight h y 12 31)
            else (local_midnight h (y - 1) seasonStartMonth 1,
                  UTC h ((days_from_civil y seasonStartMonth 1 - 1) * msPerDay))) \<and>
         determineSeasonDates h 9 (Some 2023) =
           (local_midnight h 2022 9 1, local_midnight h 2023 8 31) \<and>
         determineSeasonDates h 3 (Some 2023) =
           (local_midnight h 2023 3 1, local_midnight h 2023 12 31)"
proof -
  have gen: "determineSeasonDates h sm (Some yy) =
           (if sm \<le> 6
            then (local_midnight h yy sm 1, local_midnight h yy 12 31)
            else (local_midnight h (yy - 1) sm 1,
                  UTC h ((days_from_civil yy sm 1 - 1) * msPerDay)))"
    if "1 \<le> sm" "sm \<le> 12" "100 < yy" for sm yy
    using that days_from_civil_day [of yy 12 31]
    by (simp add: determineSeasonDates_def new_Date_month DECEMBER_MONTH_def
          local_midnight_def)
  have "determineSeasonDates h 9 (Some 2023) =
      (local_midnight h 2022 9 1, UTC h ((days_from_civil 2023 9 1 - 1) * msPerDay))"
    using gen [of 9 2023] by simp
  then have sep: "determineSeasonDates h 9 (Some 2023) =
      (local_midnight h 2022 9 1, local_midnight h 2023 8 31)"
    by (simp only: day_before_september_2023 local_midnight_def)
  have mar: "determineSeasonDates h 3 (Some 2023) =
      (local_midnight h 2023 3 1, local_midnight h 2023 12 31)"
    using gen [of 3 2023] by simp
  from gen [OF assms] sep mar show ?thesis by blast
qed

text \<open>In the UTC time zone, as time values.\<close>

theorem season_window_witness:
  "determineSeasonDates utc_host 9 (Some 2023) = (1661990400000, 1693440000000) \<and>
   determineSeasonDates utc_host 3 (Some 2023) = (1677628800000, 1703980800000)"
proof -
  have "(1::int) \<le> 9" and "(9::int) \<le> 12" and "(100::int) < 2023" by simp_all
  from season_window [OF this, of utc_host, THEN conjunct2] show ?thesis
    by (simp only: local_midnight_utc)
qed

text \<open>The season of start month 3 and year 2023 does not start on January 1.\<close>

theorem season_window_counterexample:
  "determineSeasonDates utc_host 3 (Some 2023) \<noteq>
     (local_midnight utc_host 2023 1 1, local_midnight utc_host 2023 12 31)"
  by code_simp

section \<open>The aggregator and the arrays of its caller\<close>

lemma array_of_alloc:
  "array_of (snd (alloc_array xs m)) (fst (alloc_array xs m)) = xs"
  by (simp add: alloc_array_def array_of_def)

lemma sortDataChronologically_store_result:
  "array_of (snd (sortDataChronologically_store data m))
            (fst (sortDataChronologically_store data m)) =
     sortDataChronologically (array_of m data)"
  by (simp add: sortDataChronologically_store_def alloc_array_def sort_in_place_def
        array_of_def sortDataChronologically_def)

lemma sortDataChronologically_store_frame:
  "r < nextRef m \<Longrightarrow> arrays (snd (sortDataChronologically_store data m)) r = arrays m r"
  by (simp add: sortDataChronologically_store_def alloc_array_def sort_in_place_def)

lemma sortDataChronologically_store_next:
  "nextRef (snd (sortDataChronologically_store data m)) = Suc (nextRef m)"
  by (simp add: sortDataChronologically_store_def alloc_array_def sort_in_place_def)

lemma calculateChillHours_store_result:
  "fst (calculateChillHours_store c h data m) = calculateChillHours c h (array_of m data)"
  using sortDataChronologically_store_result [of data m]
  by (auto simp: calculateChillHours_store_def calculateChillHours_def split: prod.splits)

lemma calculateChillHours_store_frame:
  "r < nextRef m \<Longrightarrow> arrays (snd (calculateChillHours_store c h data m)) r = arrays m r"
  using sortDataChronologically_store_frame [of r m data]
  by (auto simp: calculateChillHours_store_def split: prod.splits)

lemma filterDataForSeason_store_result:
  "array_of (snd (filterDataForSeason_store input s e m))
            (fst (filterDataForSeason_store input s e m)) =
     filterDataForSeason (array_of m input) s e"
  by (simp add: filterDataForSeason_store_def filterDataForSeason_def array_of_alloc)

lemma filterDataForSeason_store_frame:
  "r < nextRef m \<Longrightarrow> arrays (snd (filterDataForSeason_store input s e m)) r = arrays m r"
  by (simp add: filterDataForSeason_store_def alloc_array_def)

lemma filterDataForSeason_store_next:
  "nextRef (snd (filterDataForSeason_store input s e m)) = Suc (nextRef m)"
  by (simp add: filterDataForSeason_store_def alloc_array_def)

lemma calculateSeasonChillHours_store_result:
  "fst (calculateSeasonChillHours_store c h input sm y m) =
     calculateSeasonChillHours c h (array_of m input) sm y"
proof -
  obtain s e where se: "determineSeasonDates h sm y = (s, e)"
    by (cases "determineSeasonDates h sm y")
  obtain sd m1 where f: "filterDataForSeason_store input s e m = (sd, m1)"
    by (cases "filterDataForSeason_store input s e m")
  have a: "array_of m1 sd = filterDataForSeason (array_of m input) s e"
    using filterDataForSeason_store_result [of input s e m] by (simp add: f)
  show ?thesis
    by (simp add: calculateSeasonChillHours_store_def calculateSeasonChillHours_def se f a
          calculateChillHours_store_result)
qed

lemma calculateSeasonChillHours_store_frame:
  assumes "r < nextRef m"
  shows "arrays (snd (calculateSeasonChillHours_store c h input sm y m)) r = arrays m r"
proof -
  obtain s e where se: "determineSeasonDates h sm y = (s, e)"
    by (cases "determineSeasonDates h sm y")
  obtain sd m1 where f: "filterDataForSeason_store input s e m = (sd, m1)"
    by (cases "filterDataForSeason_store input s e m")
  have a: "arrays m1 r = arrays m r"
    using filterDataForSeason_store_frame [OF assms, of input s e] by (simp add: f)
  have n: "r < nextRef m1"
    using filterDataForSeason_store_next [of input s e m] assms by (simp add: f)
  show ?thesis
    using calculateChillHours_store_frame [OF n, of c h sd] a
    by (simp add: calculateSeasonChillHours_store_def se f)
qed

lemma sort_in_place_writes:
  "arrays store0 0 = Some (rev hour3) \<and> arrays (sort_in_place 0 store0) 0 = Some hour3"
  by (simp add: sort_in_place_def store0_def array_of_def hour3_def reading_def)

text \<open>
  C10. \<open>calculateChillHours\<close> and \<open>calculateSeasonChillHours\<close> leave every array that
  exists when they are called as it is, the array of their argument among them: the sort
  writes a copy and the filter of the season builds a new array. Their reports are those
  of the functions on values.
\<close>

theorem aggregator_keeps_input:
  assumes "r < nextRef m"
  shows "arrays (snd (calculateChillHours_store c h data m)) r = arrays m r \<and>
         arrays (snd (calculateSeasonChillHours_store c h data seasonStartMonth year m)) r
           = arrays m r \<and>
         fst (calculateChillHours_store c h data m) = calculateChillHours c h (array_of m data) \<and>
         fst (calculateSeasonChillHours_store c h data seasonStartMonth year m) =
           calculateSeasonChillHours c h (array_of m data) seasonStartMonth year"
  using assms
  by (simp add: calculateChillHours_store_frame calculateSeasonChillHours_store_frame
        calculateChillHours_store_result calculateSeasonChillHours_store_result)

text \<open>On a store whose array 0 holds the four readings of the test data in reverse
  order.\<close>

theorem aggregator_keeps_input_witness:
  "0 < nextRef store0 \<and>
   arrays (snd (calculateChillHours_store default_calculator utc_host 0 store0)) 0
     = Some (rev hour3) \<and>
   arrays (snd (calculateSeasonChillHours_store default_calculator utc_host 0 9 (Some 2023)
                  store0)) 0
     = Some (rev hour3)"
proof -
  have n: "0 < nextRef store0" by (simp add: store0_def)
  have a: "arrays store0 0 = Some (rev hour3)" by (simp add: store0_def)
  from aggregator_keeps_input [OF n, of default_calculator utc_host 0 9 "Some 2023"] n a
  show ?thesis by simp
qed


section \<open>One request, with retries\<close>

lemma retry_trace_0: "retry_trace api req r 0 = [Get req]"
  by (simp add: retry_trace_def)

lemma retry_trace_Suc:
  "retry_trace api req r (Suc k) =
     Get req # Sleep (rateLimitDelay api * 2 ^ r) # retry_trace api req (Suc r) k"
proof -
  have "[r..<r + Suc k] = r # [Suc r..<Suc r + k]" by (simp add: upt_conv_Cons)
  then show ?thesis by (simp add: retry_trace_def)
qed

lemma retries_made_le: "retries_made net req s b \<le> b"
  by (induction b arbitrary: s) auto



lemma makeRequest_loop_run:
  "0 \<le> retries \<Longrightarrow>
   makeRequest_loop net api req maxRetries retries w =
     (let k = retries_made net req (server w) (nat (maxRetries - retries))
      in (outcome (fst (attempt net req (server w) k)),
          w \<lparr> server := snd (attempt net req (server w) k),
              trace := trace w @ retry_trace api req (nat retries) k \<rparr>))"
proof (induction net api req maxRetries retries w rule: makeRequest_loop.induct)
  case (1 net api req maxRetries retries w)
  obtain resp s' where net: "net (server w) req = (resp, s')" by (cases "net (server w) req")
  let ?w1 = "w \<lparr> server := s', trace := trace w @ [Get req] \<rparr>"
  have ax: "axios_get net req w = (resp, ?w1)" by (simp add: axios_get_def net)
  show ?case
  proof (cases "retryable_response resp \<and> retries < maxRetries")
    case False
    then have k: "retries_made net req (server w) (nat (maxRetries - retries)) = 0"
      by (cases "nat (maxRetries - retries)") (auto simp: net)
    from False show ?thesis
      by (subst makeRequest_loop.simps)
         (auto simp: ax k net outcome_def retry_trace_0 retryable_response_def Let_def
               split: response.splits)
  next
    case True
    then obtain e where resp: "resp = Failed e" and e: "isRetryableError e"
      by (auto simp: retryable_response_def split: response.splits)
    from True have lt: "retries < maxRetries" by simp
    then have budget: "nat (maxRetries - retries) = Suc (nat (maxRetries - (retries + 1)))"
      by simp
    have nr: "nat (retries + 1) = Suc (nat retries)" using "1.prems" by simp
    let ?w2 = "sleep (calculateBackoffDelay api (retries + 1)) ?w1"
    have IH: "makeRequest_loop net api req maxRetries (retries + 1) ?w2 =
       (let k = retries_made net req (server ?w2) (nat (maxRetries - (retries + 1)))
        in (outcome (fst (attempt net req (server ?w2) k)),
            ?w2 \<lparr> server := snd (attempt net req (server ?w2) k),
                  trace := trace ?w2 @ retry_trace api req (nat (retries + 1)) k \<rparr>))"
      using "1.IH" [of resp ?w1 e] ax resp e lt "1.prems" by simp
    have step: "makeRequest_loop net api req maxRetries retries w =
        makeRequest_loop net api req maxRetries (retries + 1) ?w2"
      using lt e by (subst makeRequest_loop.simps) (simp add: ax resp)
    show ?thesis
      unfolding step IH budget
      using True
      by (simp add: net Let_def sleep_def calculateBackoffDelay_def nr retry_trace_Suc)
  qed
qed

lemma count_gets_retry_trace: "count_gets (retry_trace api req r k) = Suc k"
proof (induction k arbitrary: r)
  case 0
  show ?case by (simp add: retry_trace_0 count_gets_def isGet_def)
next
  case (Suc k)
  from Suc [of "Suc r"] show ?case by (simp add: retry_trace_Suc count_gets_def isGet_def)
qed

lemma count_gets_append: "count_gets (xs @ ys) = count_gets xs + count_gets ys"
  by (simp add: count_gets_def)

lemma getDeviceData_run:
  "getDeviceData net api macAddress endDate limit w =
     (let req = createRequestParams api (baseUrl api @ ''/devices/'' @ macAddress) endDate limit;
          k = retries_made net req (server w) 3
      in (outcome (fst (attempt net req (server w) k)),
          w \<lparr> server := snd (attempt net req (server w) k),
              trace := trace w @ retry_trace api req 0 k \<rparr>))"
  by (simp add: getDeviceData_def makeRequest_def makeRequest_loop_run DEFAULT_MAX_RETRIES_def
        Let_def)

lemma getDeviceData_trace:
  assumes "getDeviceData net api macAddress endDate limit w = (r, w1)"
  shows "\<exists>evs. trace w1 =
           trace w @
           Get (createRequestParams api (baseUrl api @ ''/devices/'' @ macAddress) endDate limit)
             # evs
           \<and> count_gets evs \<le> 3"
proof -
  let ?req = "createRequestParams api (baseUrl api @ ''/devices/'' @ macAddress) endDate limit"
  let ?k = "retries_made net ?req (server w) 3"
  have tr: "trace w1 = trace w @ retry_trace api ?req 0 ?k"
    using assms by (auto simp: getDeviceData_run Let_def)
  have k3: "?k \<le> 3" by (rule retries_made_le)
  have "\<exists>evs. retry_trace api ?req 0 ?k = Get ?req # evs \<and> count_gets evs \<le> 3"
  proof (cases ?k)
    case 0
    then show ?thesis by (simp add: retry_trace_0 count_gets_def)
  next
    case (Suc j)
    then have "retry_trace api ?req 0 ?k =
        Get ?req # (Sleep (rateLimitDelay api * 2 ^ 0) # retry_trace api ?req (Suc 0) j)"
      by (simp add: retry_trace_Suc)
    moreover have
      "count_gets (Sleep (rateLimitDelay api * 2 ^ 0) # retry_trace api ?req (Suc 0) j) \<le> 3"
      using k3 Suc count_gets_retry_trace [of api ?req "Suc 0" j]
      by (simp add: count_gets_def isGet_def)
    ultimately show ?thesis by blast
  qed
  with tr show ?thesis by auto
qed

lemma getDeviceData_no_retry:
  assumes "net (server w)
             (createRequestParams api (baseUrl api @ ''/devices/'' @ macAddress) endDate limit)
           = (resp, s')"
    and "\<not> retryable_response resp"
  shows "getDeviceData net api macAddress endDate limit w =
     (outcome resp,
      w \<lparr> server := s',
          trace := trace w @
            [Get (createRequestParams api (baseUrl api @ ''/devices/'' @ macAddress)
                    endDate limit)] \<rparr>)"
  using assms by (simp add: getDeviceData_run Let_def numeral_3_eq_3 retry_trace_0)





section \<open>The loop of the fetch\<close>

lemma fetch_bounds_refl: "fetch_bounds st w st w"
  by (simp add: fetch_bounds_def count_gets_def)

lemma fetch_bounds_request:
  assumes gd: "getDeviceData net api macAddress endDate limit w = (r, w1)"
    and lt: "fetchCount st < MAX_FETCH_OPERATIONS"
    and st1: "fetchCount st1 = fetchCount st + 1"
    and w2: "trace w2 = trace w1 \<or> trace w2 = trace w1 @ [Sleep ms]"
    and rest: "fetch_bounds st1 w2 st' w'"
  shows "fetch_bounds st w st' w'"
proof -
  let ?get = "Get (createRequestParams api (baseUrl api @ ''/devices/'' @ macAddress)
                     endDate limit)"
  from getDeviceData_trace [OF gd] obtain evs1 where
    t1: "trace w1 = trace w @ ?get # evs1" and c1: "count_gets evs1 \<le> 3" by blast
  from rest obtain evs2 where
    le: "fetchCount st1 \<le> fetchCount st'"
    and cap: "fetchCount st1 \<le> MAX_FETCH_OPERATIONS \<longrightarrow> fetchCount st' \<le> MAX_FETCH_OPERATIONS"
    and t2: "trace w' = trace w2 @ evs2"
    and lo: "fetchCount st' - fetchCount st1 \<le> count_gets evs2"
    and hi: "count_gets evs2 \<le> 4 * (fetchCount st' - fetchCount st1)"
    by (auto simp: fetch_bounds_def)
  from w2 obtain evs where t12: "trace w2 = trace w1 @ evs" and c12: "count_gets evs = 0"
    by (auto simp: count_gets_def isGet_def)
  let ?all = "?get # evs1 @ evs @ evs2"
  have tr: "trace w' = trace w @ ?all" by (simp add: t1 t12 t2)
  have cnt: "count_gets ?all = 1 + count_gets evs1 + count_gets evs2"
    using c12 by (simp add: count_gets_def isGet_def)
  show ?thesis
    unfolding fetch_bounds_def
  proof (intro conjI exI [of _ ?all])
    show "fetchCount st \<le> fetchCount st'" using le st1 by simp
    show "fetchCount st \<le> MAX_FETCH_OPERATIONS \<longrightarrow> fetchCount st' \<le> MAX_FETCH_OPERATIONS"
      using cap lt st1 by simp
    show "trace w' = trace w @ ?all" by (rule tr)
    show "fetchCount st' - fetchCount st \<le> count_gets ?all"
      using lo le st1 unfolding cnt by simp
    show "count_gets ?all \<le> 4 * (fetchCount st' - fetchCount st)"
      using hi le st1 c1 unfolding cnt by simp
  qed
qed

text \<open>The loop, unfolded once, by the outcome of its page request.\<close>

lemma fetch_loop_stop:
  "reachedStartDate st \<or> \<not> fetchCount st < MAX_FETCH_OPERATIONS \<Longrightarrow>
     fetch_loop net api h macAddress startDate st w = (None, st, w)"
  by (subst fetch_loop.simps) auto

lemma fetch_loop_error:
  assumes "\<not> reachedStartDate st" and "fetchCount st < MAX_FETCH_OPERATIONS"
    and "getDeviceData net api macAddress (Some (currentEnd st)) DEFAULT_READINGS_PER_CHUNK w
      = (Inl e, w1)"
  shows "fetch_loop net api h macAddress startDate st w =
     (Some e, st \<lparr> fetchCount := fetchCount st + 1 \<rparr>, w1)"
  using assms by (subst fetch_loop.simps) simp

lemma fetch_loop_chunk:
  assumes "\<not> reachedStartDate st" and "fetchCount st < MAX_FETCH_OPERATIONS"
    and "getDeviceData net api macAddress (Some (currentEnd st)) DEFAULT_READINGS_PER_CHUNK w
      = (Inr d, w1)"
  shows "fetch_loop net api h macAddress startDate st w =
     (if d = [] then (None, st \<lparr> fetchCount := fetchCount st + 1 \<rparr>, w1)
      else if Min (dateutc ` set d) \<le> startDate
      then (None, st \<lparr> fetchCount := fetchCount st + 1, allData := allData st @ d,
                       reachedStartDate := True \<rparr>, w1)
      else fetch_loop net api h macAddress startDate
             (st \<lparr> fetchCount := fetchCount st + 1, allData := allData st @ d,
                   reachedStartDate := False,
                   currentEnd := Min (dateutc ` set d) - 1000 \<rparr>)
             (sleep (rateLimitDelay api) w1))"
proof (cases "d = []")
  case True
  with assms show ?thesis by (subst fetch_loop.simps) simp
next
  case False
  show ?thesis
  proof (cases "Min (dateutc ` set d) \<le> startDate")
    case True
    let ?st2 = "st \<lparr> fetchCount := fetchCount st + 1, allData := allData st @ d,
                     reachedStartDate := True \<rparr>"
    have "fetch_loop net api h macAddress startDate st w =
        fetch_loop net api h macAddress startDate ?st2 w1"
      using assms False True
      by (subst fetch_loop.simps) (simp add: processChunk_def findDateBounds_def Let_def)
    also have "\<dots> = (None, ?st2, w1)"
      by (simp add: fetch_loop_stop)
    finally show ?thesis using False True by simp
  next
    case far: False
    with assms False show ?thesis
      by (subst fetch_loop.simps)
         (simp add: processChunk_def findDateBounds_def Let_def delayBeforeNextRequest_def
            ONE_SECOND_MS_def)
  qed
qed

lemma fetch_loop_bounds:
  "fetch_loop net api h macAddress startDate st w = (err, st', w') \<Longrightarrow> fetch_bounds st w st' w'"
proof (induction "MAX_FETCH_OPERATIONS - fetchCount st" arbitrary: st w)
  case 0
  then show ?case by (simp add: fetch_loop_stop fetch_bounds_refl)
next
  case (Suc n)
  from Suc.hyps(2) have lt: "fetchCount st < MAX_FETCH_OPERATIONS" by simp
  show ?case
  proof (cases "reachedStartDate st")
    case True
    with Suc.prems show ?thesis by (simp add: fetch_loop_stop fetch_bounds_refl)
  next
    case False
    obtain r w1 where gd: "getDeviceData net api macAddress (Some (currentEnd st))
        DEFAULT_READINGS_PER_CHUNK w = (r, w1)" by force
    let ?st1 = "st \<lparr> fetchCount := fetchCount st + 1 \<rparr>"
    show ?thesis
    proof (cases r)
      case (Inl e)
      with Suc.prems have "st' = ?st1" "w' = w1"
        by (simp_all add: fetch_loop_error [OF False lt gd [unfolded Inl]])
      then show ?thesis
        using fetch_bounds_request [OF gd lt, of ?st1 w1 0 ?st1 w1] by (simp add: fetch_bounds_refl)
    next
      case (Inr d)
      note step = fetch_loop_chunk [OF False lt gd [unfolded Inr], of h startDate]
      let ?st2 = "st \<lparr> fetchCount := fetchCount st + 1, allData := allData st @ d,
                       reachedStartDate := True \<rparr>"
      let ?st3 = "st \<lparr> fetchCount := fetchCount st + 1, allData := allData st @ d,
                       reachedStartDate := False,
                       currentEnd := Min (dateutc ` set d) - 1000 \<rparr>"
      consider (empty) "d = []" | (reached) "d \<noteq> []" "Min (dateutc ` set d) \<le> startDate"
        | (far) "d \<noteq> []" "\<not> Min (dateutc ` set d) \<le> startDate" by blast
      then show ?thesis
      proof cases
        case empty
        with Suc.prems step have "st' = ?st1" "w' = w1" by simp_all
        then show ?thesis
          using fetch_bounds_request [OF gd lt, of ?st1 w1 0 ?st1 w1]
          by (simp add: fetch_bounds_refl)
      next
        case reached
        with Suc.prems step have "st' = ?st2" "w' = w1" by simp_all
        then show ?thesis
          using fetch_bounds_request [OF gd lt, of ?st2 w1 0 ?st2 w1]
          by (simp add: fetch_bounds_refl)
      next
        case far
        with Suc.prems step have run:
          "fetch_loop net api h macAddress startDate ?st3 (sleep (rateLimitDelay api) w1)
             = (err, st', w')" by simp
        have m: "n = MAX_FETCH_OPERATIONS - fetchCount ?st3" using Suc.hyps(2) by simp
        have "fetch_bounds ?st3 (sleep (rateLimitDelay api) w1) st' w'"
          by (rule Suc.hyps(1) [OF m run])
        then show ?thesis
          using fetch_bounds_request
            [OF gd lt, of ?st3 "sleep (rateLimitDelay api) w1" "rateLimitDelay api" st' w']
          by (simp add: sleep_def)
      qed
    qed
  qed
qed

lemma fetch_loop_error_source:
  "fetch_loop net api h macAddress startDate st w = (Some e, st', w') \<Longrightarrow>
     \<exists>cursor w0. getDeviceData net api macAddress (Some cursor) DEFAULT_READINGS_PER_CHUNK w0
        = (Inl e, w')"
proof (induction "MAX_FETCH_OPERATIONS - fetchCount st" arbitrary: st w)
  case 0
  then show ?case by (simp add: fetch_loop_stop)
next
  case (Suc n)
  from Suc.hyps(2) have lt: "fetchCount st < MAX_FETCH_OPERATIONS" by simp
  show ?case
  proof (cases "reachedStartDate st")
    case True
    with Suc.prems show ?thesis by (simp add: fetch_loop_stop)
  next
    case False
    obtain r w1 where gd: "getDeviceData net api macAddress (Some (currentEnd st))
        DEFAULT_READINGS_PER_CHUNK w = (r, w1)" by force
    show ?thesis
    proof (cases r)
      case (Inl e1)
      with Suc.prems have "e1 = e" "w1 = w'"
        by (simp_all add: fetch_loop_error [OF False lt gd [unfolded Inl]])
      with gd Inl show ?thesis by blast
    next
      case (Inr d)
      note step = fetch_loop_chunk [OF False lt gd [unfolded Inr], of h startDate]
      let ?st3 = "st \<lparr> fetchCount := fetchCount st + 1, allData := allData st @ d,
                       reachedStartDate := False,
                       currentEnd := Min (dateutc ` set d) - 1000 \<rparr>"
      from Suc.prems step have far: "d \<noteq> []" "\<not> Min (dateutc ` set d) \<le> startDate"
        by (auto split: if_splits)
      with Suc.prems step have run:
        "fetch_loop net api h macAddress startDate ?st3 (sleep (rateLimitDelay api) w1)
           = (Some e, st', w')" by simp
      have m: "n = MAX_FETCH_OPERATIONS - fetchCount ?st3" using Suc.hyps(2) by simp
      show ?thesis by (rule Suc.hyps(1) [OF m run])
    qed
  qed
qed

lemma getDeviceData_page:
  assumes "net (server w) (page_request api macAddress cursor) = (Data d, s')"
  shows "getDeviceData net api macAddress (Some cursor) DEFAULT_READINGS_PER_CHUNK w =
     (Inr d, w \<lparr> server := s',
                 trace := trace w @ [Get (page_request api macAddress cursor)] \<rparr>)"
  using getDeviceData_no_retry [of net w api macAddress "Some cursor"
      DEFAULT_READINGS_PER_CHUNK "Data d" s'] assms
  by (simp add: page_request_def retryable_response_def outcome_def)

lemma fetch_loop_page:
  assumes "\<not> reachedStartDate st" and "fetchCount st < MAX_FETCH_OPERATIONS"
    and "net (server w) (page_request api macAddress (currentEnd st)) = (Data d, s')"
  shows "fetch_loop net api h macAddress startDate st w =
     (if d = []
      then (None, st \<lparr> fetchCount := fetchCount st + 1 \<rparr>,
            w \<lparr> server := s',
                trace := trace w @ [Get (page_request api macAddress (currentEnd st))] \<rparr>)
      else if Min (dateutc ` set d) \<le> startDate
      then (None, st \<lparr> fetchCount := fetchCount st + 1, allData := allData st @ d,
                       reachedStartDate := True \<rparr>,
            w \<lparr> server := s',
                trace := trace w @ [Get (page_request api macAddress (currentEnd st))] \<rparr>)
      else fetch_loop net api h macAddress startDate
             (st \<lparr> fetchCount := fetchCount st + 1, allData := allData st @ d,
                   reachedStartDate := False,
                   currentEnd := Min (dateutc ` set d) - 1000 \<rparr>)
             (w \<lparr> server := s',
                  trace := trace w @ [Get (page_request api macAddress (currentEnd st)),
                                      Sleep (rateLimitDelay api)] \<rparr>))"
  using fetch_loop_chunk
    [OF assms(1,2) getDeviceData_page [where net = net and w = w, OF assms(3)], of h startDate]
  by (simp add: sleep_def)

lemma fetch_loop_cap:
  assumes live: "\<And>s r. \<exists>d s'. net s r = (Data d, s') \<and> d \<noteq> [] \<and>
                           startDate < Min (dateutc ` set d)"
    and "\<not> reachedStartDate st" and "fetchCount st \<le> MAX_FETCH_OPERATIONS"
  shows "\<exists>st' w'. fetch_loop net api h macAddress startDate st w = (None, st', w') \<and>
           fetchCount st' = MAX_FETCH_OPERATIONS \<and> \<not> reachedStartDate st' \<and>
           length (allData st') \<ge> length (allData st) + (MAX_FETCH_OPERATIONS - fetchCount st) \<and>
           count_gets (trace w') = count_gets (trace w) + (MAX_FETCH_OPERATIONS - fetchCount st)"
  using assms(2,3)
proof (induction "MAX_FETCH_OPERATIONS - fetchCount st" arbitrary: st w)
  case 0
  then show ?case by (simp add: fetch_loop_stop)
next
  case (Suc n)
  from Suc.hyps(2) have lt: "fetchCount st < MAX_FETCH_OPERATIONS" by simp
  from live obtain d s' where
    net: "net (server w) (page_request api macAddress (currentEnd st)) = (Data d, s')"
    and d: "d \<noteq> []" "startDate < Min (dateutc ` set d)"
    by blast
  let ?st2 = "st \<lparr> fetchCount := fetchCount st + 1, allData := allData st @ d,
      reachedStartDate := False, currentEnd := Min (dateutc ` set d) - 1000 \<rparr>"
  let ?w2 = "w \<lparr> server := s',
      trace := trace w @ [Get (page_request api macAddress (currentEnd st)),
                          Sleep (rateLimitDelay api)] \<rparr>"
  have m: "n = MAX_FETCH_OPERATIONS - fetchCount ?st2" using Suc.hyps(2) by simp
  have r: "\<not> reachedStartDate ?st2" by simp
  have c: "fetchCount ?st2 \<le> MAX_FETCH_OPERATIONS" using lt by simp
  have len: "length d \<ge> 1" using d(1) by (cases d) simp_all
  have notle: "\<not> Min (dateutc ` set d) \<le> startDate" using d(2) by (simp only: not_le)
  have eq: "fetch_loop net api h macAddress startDate st w =
      fetch_loop net api h macAddress startDate ?st2 ?w2"
    by (simp only: fetch_loop_page [where net = net and w = w and st = st,
          OF Suc.prems(1) lt net] d(1) notle if_False)
  from Suc.hyps(1) [OF m r c, of ?w2] obtain st' w' where
    res: "fetch_loop net api h macAddress startDate ?st2 ?w2 = (None, st', w')"
    and fc: "fetchCount st' = MAX_FETCH_OPERATIONS" and nr: "\<not> reachedStartDate st'"
    and ln: "length (allData st') \<ge>
               length (allData ?st2) + (MAX_FETCH_OPERATIONS - fetchCount ?st2)"
    and cg: "count_gets (trace w') =
               count_gets (trace ?w2) + (MAX_FETCH_OPERATIONS - fetchCount ?st2)"
    by blast
  have l: "length (allData st') \<ge> length (allData st) + (MAX_FETCH_OPERATIONS - fetchCount st)"
    using ln len lt by simp
  have g: "count_gets (trace w') = count_gets (trace w) + (MAX_FETCH_OPERATIONS - fetchCount st)"
    using cg lt by (simp add: count_gets_def isGet_def)
  from eq res fc nr l g show ?case by simp
qed

lemma fetch_loop_first_request:
  assumes go: "\<not> reachedStartDate st" "fetchCount st < MAX_FETCH_OPERATIONS"
    and run: "fetch_loop net api h macAddress startDate st w = (err, st', w')"
  shows "\<exists>evs. trace w' = trace w @ Get (page_request api macAddress (currentEnd st)) # evs"
proof -
  obtain r w1 where gd: "getDeviceData net api macAddress (Some (currentEnd st))
      DEFAULT_READINGS_PER_CHUNK w = (r, w1)" by force
  from getDeviceData_trace [OF gd] obtain evs1 where
    t1: "trace w1 = trace w @ Get (page_request api macAddress (currentEnd st)) # evs1"
    by (auto simp: page_request_def)
  have "\<exists>evs2. trace w' = trace w1 @ evs2"
  proof (cases r)
    case (Inl e)
    with run have "w' = w1" by (simp add: fetch_loop_error [OF go gd [unfolded Inl]])
    then show ?thesis by simp
  next
    case (Inr d)
    note step = fetch_loop_chunk [OF go gd [unfolded Inr], of h startDate]
    show ?thesis
    proof (cases "d = [] \<or> Min (dateutc ` set d) \<le> startDate")
      case True
      with run step have "w' = w1" by (auto split: if_splits)
      then show ?thesis by simp
    next
      case False
      with run step have
        "fetch_bounds (st \<lparr> fetchCount := fetchCount st + 1, allData := allData st @ d,
                            reachedStartDate := False,
                            currentEnd := Min (dateutc ` set d) - 1000 \<rparr>)
           (sleep (rateLimitDelay api) w1) st' w'"
        by (auto intro: fetch_loop_bounds)
      then show ?thesis by (auto simp: fetch_bounds_def sleep_def)
    qed
  qed
  with t1 show ?thesis by auto
qed

lemma fetchDataInChunks_loop:
  "fetch_loop net api h macAddress startDate (initial_fetch_state endDate) w = (err, st', w')
   \<Longrightarrow> fetchDataInChunks net api h macAddress startDate endDate w =
         (case err of None \<Rightarrow> Inr (allData st') | Some e \<Rightarrow> Inl e, w')"
  by (simp add: fetchDataInChunks_def initial_fetch_state_def split: option.splits)

text \<open>
  C8. The loop of \<open>fetchDataInChunks\<close> always ends, after at most 100 page requests
  (\<open>MAX_FETCH_OPERATIONS\<close>): the count of fetches at the end is at most 100, and the run
  sends at least as many requests as that count and at most four times as many (a page
  request is sent again up to three times). An error comes out only when a page
  request has failed with it; otherwise the accumulated readings are the result. When
  every answer is a page that is not empty and whose earliest timestamp is after the
  start date, the loop stops at the cap: exactly 100 requests, and the readings of the
  100 pages come back as a normal result. One turn of the loop on a page \<open>d\<close>: an empty
  page stops the loop; a page whose earliest timestamp is at or before the start date is
  kept and stops the loop; any other page is kept and the loop goes on, after a wait of
  \<open>rateLimitDelay\<close>, with the end date one second before the earliest timestamp of the
  page.
\<close>

theorem fetch_terminates_within_cap:
  "(case fetch_loop net api h macAddress startDate (initial_fetch_state endDate) w of
      (err, st', w') \<Rightarrow>
        fetchCount st' \<le> MAX_FETCH_OPERATIONS \<and>
        (\<exists>evs. trace w' = trace w @ evs \<and>
               fetchCount st' \<le> count_gets evs \<and> count_gets evs \<le> 4 * fetchCount st') \<and>
        fetchDataInChunks net api h macAddress startDate endDate w =
          (case err of None \<Rightarrow> Inr (allData st') | Some e \<Rightarrow> Inl e, w') \<and>
        (\<forall>e. err = Some e \<longrightarrow>
           (\<exists>cursor w0. getDeviceData net api macAddress (Some cursor)
                          DEFAULT_READINGS_PER_CHUNK w0 = (Inl e, w')))) \<and>
   MAX_FETCH_OPERATIONS = 100 \<and>
   ((\<forall>s r. \<exists>d s'. net s r = (Data d, s') \<and> d \<noteq> [] \<and> startDate < Min (dateutc ` set d)) \<longrightarrow>
      (\<exists>xs w'. fetchDataInChunks net api h macAddress startDate endDate w = (Inr xs, w') \<and>
               100 \<le> length xs \<and> count_gets (trace w') = count_gets (trace w) + 100)) \<and>
   (\<forall>st1 w1 d s'.
      \<not> reachedStartDate st1 \<and> fetchCount st1 < MAX_FETCH_OPERATIONS \<and>
      net (server w1) (page_request api macAddress (currentEnd st1)) = (Data d, s') \<longrightarrow>
      fetch_loop net api h macAddress startDate st1 w1 =
        (if d = []
         then (None, st1 \<lparr> fetchCount := fetchCount st1 + 1 \<rparr>,
               w1 \<lparr> server := s',
                    trace := trace w1 @ [Get (page_request api macAddress (currentEnd st1))] \<rparr>)
         else if Min (dateutc ` set d) \<le> startDate
         then (None, st1 \<lparr> fetchCount := fetchCount st1 + 1, allData := allData st1 @ d,
                           reachedStartDate := True \<rparr>,
               w1 \<lparr> server := s',
                    trace := trace w1 @ [Get (page_request api macAddress (currentEnd st1))] \<rparr>)
         else fetch_loop net api h macAddress startDate
                (st1 \<lparr> fetchCount := fetchCount st1 + 1, allData := allData st1 @ d,
                       reachedStartDate := False,
                       currentEnd := Min (dateutc ` set d) - 1000 \<rparr>)
                (w1 \<lparr> server := s',
                      trace := trace w1 @ [Get (page_request api macAddress (currentEnd st1)),
                                           Sleep (rateLimitDelay api)] \<rparr>)))"
proof -
  let ?init = "initial_fetch_state endDate"
  obtain err st' w' where run:
    "fetch_loop net api h macAddress startDate ?init w = (err, st', w')"
    by (cases "fetch_loop net api h macAddress startDate ?init w")
  have i0: "fetchCount ?init = 0" "\<not> reachedStartDate ?init" "allData ?init = []"
    by (simp_all add: initial_fetch_state_def)
  from fetch_loop_bounds [OF run] i0 have a1: "fetchCount st' \<le> MAX_FETCH_OPERATIONS"
    and a2: "\<exists>evs. trace w' = trace w @ evs \<and>
               fetchCount st' \<le> count_gets evs \<and> count_gets evs \<le> 4 * fetchCount st'"
    by (auto simp: fetch_bounds_def)
  note a3 = fetchDataInChunks_loop [OF run]
  have a4: "\<forall>e. err = Some e \<longrightarrow>
           (\<exists>cursor w0. getDeviceData net api macAddress (Some cursor)
                          DEFAULT_READINGS_PER_CHUNK w0 = (Inl e, w'))"
    using run fetch_loop_error_source [of net api h macAddress startDate ?init w] by blast
  have A: "(case fetch_loop net api h macAddress startDate ?init w of
      (err, st', w') \<Rightarrow>
        fetchCount st' \<le> MAX_FETCH_OPERATIONS \<and>
        (\<exists>evs. trace w' = trace w @ evs \<and>
               fetchCount st' \<le> count_gets evs \<and> count_gets evs \<le> 4 * fetchCount st') \<and>
        fetchDataInChunks net api h macAddress startDate endDate w =
          (case err of None \<Rightarrow> Inr (allData st') | Some e \<Rightarrow> Inl e, w') \<and>
        (\<forall>e. err = Some e \<longrightarrow>
           (\<exists>cursor w0. getDeviceData net api macAddress (Some cursor)
                          DEFAULT_READINGS_PER_CHUNK w0 = (Inl e, w'))))"
    unfolding run using a1 a2 a3 a4 by simp
  have B: "MAX_FETCH_OPERATIONS = 100" by (simp add: MAX_FETCH_OPERATIONS_def)
  have C: "\<exists>xs w'. fetchDataInChunks net api h macAddress startDate endDate w = (Inr xs, w') \<and>
               100 \<le> length xs \<and> count_gets (trace w') = count_gets (trace w) + 100"
    if live: "\<forall>s r. \<exists>d s'. net s r = (Data d, s') \<and> d \<noteq> [] \<and>
                startDate < Min (dateutc ` set d)"
  proof -
    from live have live': "\<And>s r. \<exists>d s'. net s r = (Data d, s') \<and> d \<noteq> [] \<and>
                startDate < Min (dateutc ` set d)" by blast
    from fetch_loop_cap [of net startDate ?init api h macAddress w, OF live'] i0
    obtain st2 w2 where
      r2: "fetch_loop net api h macAddress startDate ?init w = (None, st2, w2)"
      and l2: "length (allData st2) \<ge> MAX_FETCH_OPERATIONS"
      and g2: "count_gets (trace w2) = count_gets (trace w) + MAX_FETCH_OPERATIONS"
      by auto
    from fetchDataInChunks_loop [OF r2] l2 g2 show ?thesis by (simp add: B)
  qed
  have D: "fetch_loop net api h macAddress startDate st1 w1 =
        (if d = []
         then (None, st1 \<lparr> fetchCount := fetchCount st1 + 1 \<rparr>,
               w1 \<lparr> server := s',
                    trace := trace w1 @ [Get (page_request api macAddress (currentEnd st1))] \<rparr>)
         else if Min (dateutc ` set d) \<le> startDate
         then (None, st1 \<lparr> fetchCount := fetchCount st1 + 1, allData := allData st1 @ d,
                           reachedStartDate := True \<rparr>,
               w1 \<lparr> server := s',
                    trace := trace w1 @ [Get (page_request api macAddress (currentEnd st1))] \<rparr>)
         else fetch_loop net api h macAddress startDate
                (st1 \<lparr> fetchCount := fetchCount st1 + 1, allData := allData st1 @ d,
                       reachedStartDate := False,
                       currentEnd := Min (dateutc ` set d) - 1000 \<rparr>)
                (w1 \<lparr> server := s',
                      trace := trace w1 @ [Get (page_request api macAddress (currentEnd st1)),
                                           Sleep (rateLimitDelay api)] \<rparr>))"
    if "\<not> reachedStartDate st1 \<and> fetchCount st1 < MAX_FETCH_OPERATIONS \<and>
      net (server w1) (page_request api macAddress (currentEnd st1)) = (Data d, s')"
    for st1 w1 d s'
    using that fetch_loop_page [where net = net and w = w1 and st = st1 and d = d and s' = s']
    by blast
  from A B C D show ?thesis by blast
qed

text \<open>
  A service that always answers the one reading of time 5: from start date 0 the loop
  stops at the cap with 100 requests; from start date 5 it stops after one page. A
  service that answers an empty page stops the loop after one request.
\<close>

theorem fetch_terminates_within_cap_witness:
  "(case fetchDataInChunks (server_const [reading 5 40]) api0 utc_host ''mac'' 0 10 world0 of
      (Inr xs, w') \<Rightarrow> 100 \<le> length xs \<and> count_gets (trace w') = 100
    | (Inl e, w') \<Rightarrow> False) \<and>
   fetch_loop (server_const [reading 5 40]) api0 utc_host ''mac'' 5 (initial_fetch_state 10)
     world0 =
     (None,
      \<lparr> currentEnd = 10, allData = [reading 5 40], reachedStartDate = True, fetchCount = 1 \<rparr>,
      \<lparr> server = 1, trace = [Get (page_request api0 ''mac'' 10)] \<rparr>) \<and>
   fetch_loop (server_const []) api0 utc_host ''mac'' 5 (initial_fetch_state 10) world0 =
     (None,
      \<lparr> currentEnd = 10, allData = [], reachedStartDate = False, fetchCount = 1 \<rparr>,
      \<lparr> server = 1, trace = [Get (page_request api0 ''mac'' 10)] \<rparr>)"
proof -
  have live: "\<forall>s r. \<exists>d s'. server_const [reading 5 40] s r = (Data d, s') \<and> d \<noteq> [] \<and>
      0 < Min (dateutc ` set d)"
    by (simp add: server_const_def reading_def)
  note thm1 = fetch_terminates_within_cap
    [where net = "server_const [reading 5 40]" and api = api0 and h = utc_host
      and macAddress = "''mac''" and startDate = 0 and endDate = 10 and w = world0]
  from thm1 live have "\<exists>xs w'.
      fetchDataInChunks (server_const [reading 5 40]) api0 utc_host ''mac'' 0 10 world0
        = (Inr xs, w') \<and>
      100 \<le> length xs \<and> count_gets (trace w') = count_gets (trace world0) + 100"
    by blast
  then have one:
    "(case fetchDataInChunks (server_const [reading 5 40]) api0 utc_host ''mac'' 0 10 world0 of
      (Inr xs, w') \<Rightarrow> 100 \<le> length xs \<and> count_gets (trace w') = 100
    | (Inl e, w') \<Rightarrow> False)"
    by (auto simp: world0_def count_gets_def)
  have go: "\<not> reachedStartDate (initial_fetch_state 10) \<and>
      fetchCount (initial_fetch_state 10) < MAX_FETCH_OPERATIONS"
    by (simp add: initial_fetch_state_def MAX_FETCH_OPERATIONS_def)
  have n5: "server_const [reading 5 40] (server world0)
      (page_request api0 ''mac'' (currentEnd (initial_fetch_state 10)))
      = (Data [reading 5 40], 1)"
    by (simp add: server_const_def world0_def)
  have n0: "server_const [] (server world0)
      (page_request api0 ''mac'' (currentEnd (initial_fetch_state 10))) = (Data [], 1)"
    by (simp add: server_const_def world0_def)
  from fetch_terminates_within_cap
    [where net = "server_const [reading 5 40]" and api = api0 and h = utc_host
      and macAddress = "''mac''" and startDate = 5 and endDate = 10 and w = world0] go n5
  have "fetch_loop (server_const [reading 5 40]) api0 utc_host ''mac'' 5
      (initial_fetch_state 10) world0 =
      (if [reading 5 40] = []
         then (None, (initial_fetch_state 10)
                       \<lparr> fetchCount := fetchCount (initial_fetch_state 10) + 1 \<rparr>,
               world0 \<lparr> server := 1,
                    trace := trace world0 @
                      [Get (page_request api0 ''mac'' (currentEnd (initial_fetch_state 10)))] \<rparr>)
         else if Min (dateutc ` set [reading 5 40]) \<le> 5
         then (None, (initial_fetch_state 10)
                       \<lparr> fetchCount := fetchCount (initial_fetch_state 10) + 1,
                         allData := allData (initial_fetch_state 10) @ [reading 5 40],
                         reachedStartDate := True \<rparr>,
               world0 \<lparr> server := 1,
                    trace := trace world0 @
                      [Get (page_request api0 ''mac'' (currentEnd (initial_fetch_state 10)))] \<rparr>)
         else fetch_loop (server_const [reading 5 40]) api0 utc_host ''mac'' 5
                ((initial_fetch_state 10)
                   \<lparr> fetchCount := fetchCount (initial_fetch_state 10) + 1,
                     allData := allData (initial_fetch_state 10) @ [reading 5 40],
                     reachedStartDate := False,
                     currentEnd := Min (dateutc ` set [reading 5 40]) - 1000 \<rparr>)
                (world0 \<lparr> server := 1,
                      trace := trace world0 @
                        [Get (page_request api0 ''mac'' (currentEnd (initial_fetch_state 10))),
                         Sleep (rateLimitDelay api0)] \<rparr>))"
    by blast
  then have two: "fetch_loop (server_const [reading 5 40]) api0 utc_host ''mac'' 5
      (initial_fetch_state 10) world0 =
     (None,
      \<lparr> currentEnd = 10, allData = [reading 5 40], reachedStartDate = True, fetchCount = 1 \<rparr>,
      \<lparr> server = 1, trace = [Get (page_request api0 ''mac'' 10)] \<rparr>)"
    by (simp add: initial_fetch_state_def world0_def reading_def)
  from fetch_terminates_within_cap
    [where net = "server_const []" and api = api0 and h = utc_host
      and macAddress = "''mac''" and startDate = 5 and endDate = 10 and w = world0] go n0
  have "fetch_loop (server_const []) api0 utc_host ''mac'' 5
      (initial_fetch_state 10) world0 =
      (None, (initial_fetch_state 10)
                       \<lparr> fetchCount := fetchCount (initial_fetch_state 10) + 1 \<rparr>,
               world0 \<lparr> server := 1,
                    trace := trace world0 @
                      [Get (page_request api0 ''mac'' (currentEnd (initial_fetch_state 10)))] \<rparr>)"
    by auto
  then have three: "fetch_loop (server_const []) api0 utc_host ''mac'' 5
      (initial_fetch_state 10) world0 =
     (None,
      \<lparr> currentEnd = 10, allData = [], reachedStartDate = False, fetchCount = 1 \<rparr>,
      \<lparr> server = 1, trace = [Get (page_request api0 ''mac'' 10)] \<rparr>)"
    by (simp add: initial_fetch_state_def world0_def)
  from one two three show ?thesis by blast
qed


section \<open>The fetch of a date range\<close>

lemma processRetrievedData_sorted:
  "sorted (map dateutc (processRetrievedData all startDate endDate))"
  by (simp add: processRetrievedData_def api_sortDataChronologically_def)

lemma processRetrievedData_set:
  "set (processRetrievedData all startDate endDate) =
     {x \<in> set all. startDate \<le> dateutc x \<and> dateutc x \<le> endDate}"
  by (auto simp: processRetrievedData_def api_sortDataChronologically_def
        filterDataByDateRange_def)

lemma processRetrievedData_mset:
  "mset (processRetrievedData all startDate endDate) =
     filter_mset (\<lambda>x. startDate \<le> dateutc x \<and> dateutc x \<le> endDate) (mset all)"
  by (simp add: processRetrievedData_def api_sortDataChronologically_def
        filterDataByDateRange_def)

lemma getDeviceDataForDateRange_result:
  "getDeviceDataForDateRange net api h macAddress startDate endDateArg maxDaysArg w =
     (case fetchDataInChunks net api h macAddress startDate
             (case endDateArg of None \<Rightarrow> now h | Some e \<Rightarrow> e) w of
        (Inl error, w1) \<Rightarrow> (Inl error, w1)
      | (Inr all, w1) \<Rightarrow>
          (Inr (processRetrievedData all startDate
                  (case endDateArg of None \<Rightarrow> now h | Some e \<Rightarrow> e)), w1))"
  by (simp add: getDeviceDataForDateRange_def Let_def)

lemma fetchDataInChunks_trace:
  assumes "fetchDataInChunks net api h macAddress startDate endDate w = (r, w')"
  shows "\<exists>evs. trace w' = trace w @ Get (page_request api macAddress endDate) # evs"
proof -
  obtain err st' w1 where run:
    "fetch_loop net api h macAddress startDate (initial_fetch_state endDate) w = (err, st', w1)"
    by (cases "fetch_loop net api h macAddress startDate (initial_fetch_state endDate) w")
  from fetchDataInChunks_loop [OF run] assms have w: "w' = w1" by simp
  have go: "\<not> reachedStartDate (initial_fetch_state endDate)"
    "fetchCount (initial_fetch_state endDate) < MAX_FETCH_OPERATIONS"
    by (simp_all add: initial_fetch_state_def MAX_FETCH_OPERATIONS_def)
  from fetch_loop_first_request [OF go run] w show ?thesis
    by (simp add: initial_fetch_state_def)
qed

lemma fetchDataInChunks_one_page:
  assumes "net (server w) (page_request api macAddress endDate) = (Data d, s')"
    and "d \<noteq> []" and "Min (dateutc ` set d) \<le> startDate"
  shows "fetchDataInChunks net api h macAddress startDate endDate w =
     (Inr d, w \<lparr> server := s',
                 trace := trace w @ [Get (page_request api macAddress endDate)] \<rparr>)"
proof -
  have go: "\<not> reachedStartDate (initial_fetch_state endDate)"
    "fetchCount (initial_fetch_state endDate) < MAX_FETCH_OPERATIONS"
    by (simp_all add: initial_fetch_state_def MAX_FETCH_OPERATIONS_def)
  have n: "net (server w) (page_request api macAddress (currentEnd (initial_fetch_state endDate)))
      = (Data d, s')"
    using assms(1) by (simp add: initial_fetch_state_def)
  have "fetch_loop net api h macAddress startDate (initial_fetch_state endDate) w =
      (None, (initial_fetch_state endDate)
               \<lparr> fetchCount := fetchCount (initial_fetch_state endDate) + 1,
                 allData := allData (initial_fetch_state endDate) @ d,
                 reachedStartDate := True \<rparr>,
       w \<lparr> server := s',
           trace := trace w @
             [Get (page_request api macAddress (currentEnd (initial_fetch_state endDate)))] \<rparr>)"
    by (simp only: fetch_loop_page [where net = net and w = w, OF go n] assms(2,3)
          if_False if_True)
  from fetchDataInChunks_loop [OF this] show ?thesis
    by (simp add: initial_fetch_state_def)
qed

lemma range_fetch_dup:
  "getDeviceDataForDateRange (server_const page_dup) api0 utc_host ''mac'' 0 (Some 10) None
     world0 =
     (Inr [reading 0 40, reading 5 40, reading 5 40],
      \<lparr> server = 1, trace = [Get (page_request api0 ''mac'' 10)] \<rparr>)"
proof -
  have n: "server_const page_dup (server world0) (page_request api0 ''mac'' 10)
      = (Data page_dup, 1)"
    by (simp add: server_const_def world0_def)
  have ne: "page_dup \<noteq> []" by (simp add: page_dup_def)
  have m: "Min (dateutc ` set page_dup) \<le> 0" by (simp add: page_dup_def reading_def)
  have p: "processRetrievedData page_dup 0 10 = [reading 0 40, reading 5 40, reading 5 40]"
    by (simp add: processRetrievedData_def filterDataByDateRange_def
          api_sortDataChronologically_def page_dup_def reading_def)
  show ?thesis
    by (simp add: getDeviceDataForDateRange_result
          fetchDataInChunks_one_page [where net = "server_const page_dup" and w = world0,
            OF n ne m] p)
       (simp add: world0_def)
qed

lemma range_fetch_inverted:
  "getDeviceDataForDateRange (server_const page_dup) api0 utc_host ''mac'' 20 (Some 10) None
     world0 =
     (Inr [], \<lparr> server = 1, trace = [Get (page_request api0 ''mac'' 10)] \<rparr>)"
proof -
  have n: "server_const page_dup (server world0) (page_request api0 ''mac'' 10)
      = (Data page_dup, 1)"
    by (simp add: server_const_def world0_def)
  have ne: "page_dup \<noteq> []" by (simp add: page_dup_def)
  have m: "Min (dateutc ` set page_dup) \<le> 20" by (simp add: page_dup_def reading_def)
  have p: "processRetrievedData page_dup 20 10 = []"
    by (simp add: processRetrievedData_def filterDataByDateRange_def
          api_sortDataChronologically_def page_dup_def reading_def)
  show ?thesis
    by (simp add: getDeviceDataForDateRange_result
          fetchDataInChunks_one_page [where net = "server_const page_dup" and w = world0,
            OF n ne m] p)
       (simp add: world0_def)
qed

lemma range_fetch_instant:
  "getDeviceDataForDateRange (server_const [reading 10 40]) api0 utc_host ''mac'' 10 (Some 10)
     None world0 =
     (Inr [reading 10 40], \<lparr> server = 1, trace = [Get (page_request api0 ''mac'' 10)] \<rparr>)"
proof -
  have n: "server_const [reading 10 40] (server world0) (page_request api0 ''mac'' 10)
      = (Data [reading 10 40], 1)"
    by (simp add: server_const_def world0_def)
  have ne: "[reading 10 40] \<noteq> []" by simp
  have m: "Min (dateutc ` set [reading 10 40]) \<le> 10" by (simp add: reading_def)
  have p: "processRetrievedData [reading 10 40] 10 10 = [reading 10 40]"
    by (simp add: processRetrievedData_def filterDataByDateRange_def
          api_sortDataChronologically_def reading_def)
  show ?thesis
    by (simp add: getDeviceDataForDateRange_result
          fetchDataInChunks_one_page [where net = "server_const [reading 10 40]" and w = world0,
            OF n ne m] p)
       (simp add: world0_def)
qed

lemma range_fetch_year:
  "getDeviceDataForDateRange (server_const page_year) api0 utc_host ''mac'' 0
     (Some 34560000000) None world0 =
     (Inr [reading 0 40, reading 34560000000 40],
      \<lparr> server = 1, trace = [Get (page_request api0 ''mac'' 34560000000)] \<rparr>)"
proof -
  have n: "server_const page_year (server world0) (page_request api0 ''mac'' 34560000000)
      = (Data page_year, 1)"
    by (simp add: server_const_def world0_def)
  have ne: "page_year \<noteq> []" by (simp add: page_year_def)
  have m: "Min (dateutc ` set page_year) \<le> 0" by (simp add: page_year_def reading_def)
  have p: "processRetrievedData page_year 0 34560000000
      = [reading 0 40, reading 34560000000 40]"
    by (simp add: processRetrievedData_def filterDataByDateRange_def
          api_sortDataChronologically_def page_year_def reading_def)
  show ?thesis
    by (simp add: getDeviceDataForDateRange_result
          fetchDataInChunks_one_page [where net = "server_const page_year" and w = world0,
            OF n ne m] p)
       (simp add: world0_def)
qed

text \<open>
  C1. When \<open>getDeviceDataForDateRange\<close> returns readings, they are sorted by timestamp,
  ascending, and every timestamp is at or after the start date and at or before the end
  date (the clock of the host when no end date is given). They are the accumulated
  readings of the window, each as often as it was accumulated: readings with the same
  timestamp are all kept.
\<close>

theorem range_fetch_sorted_within_window:
  assumes "getDeviceDataForDateRange net api h macAddress startDate endDateArg maxDaysArg w
             = (Inr xs, w')"
  shows "sorted (map dateutc xs) \<and>
         (\<forall>x\<in>set xs. startDate \<le> dateutc x \<and>
                      dateutc x \<le> (case endDateArg of None \<Rightarrow> now h | Some e \<Rightarrow> e)) \<and>
         (\<exists>all. fetchDataInChunks net api h macAddress startDate
                   (case endDateArg of None \<Rightarrow> now h | Some e \<Rightarrow> e) w = (Inr all, w') \<and>
                mset xs =
                  filter_mset (\<lambda>x. startDate \<le> dateutc x \<and>
                                    dateutc x \<le> (case endDateArg of None \<Rightarrow> now h | Some e \<Rightarrow> e))
                    (mset all))"
proof -
  let ?e = "case endDateArg of None \<Rightarrow> now h | Some e \<Rightarrow> e"
  obtain r w1 where f: "fetchDataInChunks net api h macAddress startDate ?e w = (r, w1)"
    by (cases "fetchDataInChunks net api h macAddress startDate ?e w")
  from assms obtain all where r: "r = Inr all" and w: "w1 = w'"
    and xs: "xs = processRetrievedData all startDate ?e"
    by (cases r) (simp_all add: getDeviceDataForDateRange_result f)
  have a: "sorted (map dateutc xs)" unfolding xs by (rule processRetrievedData_sorted)
  have b: "\<forall>x\<in>set xs. startDate \<le> dateutc x \<and> dateutc x \<le> ?e"
    unfolding xs by (simp add: processRetrievedData_set)
  have c: "fetchDataInChunks net api h macAddress startDate ?e w = (Inr all, w') \<and>
      mset xs = filter_mset (\<lambda>x. startDate \<le> dateutc x \<and> dateutc x \<le> ?e) (mset all)"
    using f r w by (simp add: xs processRetrievedData_mset)
  from a b c show ?thesis by blast
qed

text \<open>A service whose page has the reading of time 5 twice and the reading of time 0,
  for the window from 0 to 10.\<close>

theorem range_fetch_sorted_within_window_witness:
  "getDeviceDataForDateRange (server_const page_dup) api0 utc_host ''mac'' 0 (Some 10) None
     world0 =
     (Inr [reading 0 40, reading 5 40, reading 5 40],
      \<lparr> server = 1, trace = [Get (page_request api0 ''mac'' 10)] \<rparr>) \<and>
   sorted (map dateutc [reading 0 40, reading 5 40, reading 5 40]) \<and>
   list_all (\<lambda>x. 0 \<le> dateutc x \<and> dateutc x \<le> 10) [reading 0 40, reading 5 40, reading 5 40]"
  using range_fetch_sorted_within_window [OF range_fetch_dup] range_fetch_dup
  by (simp add: list_all_iff)

text \<open>On that service the result has two readings with the timestamp 5.\<close>

theorem range_fetch_dedup_counterexample:
  "fst (getDeviceDataForDateRange (server_const page_dup) api0 utc_host ''mac'' 0 (Some 10) None
          world0) = Inr [reading 0 40, reading 5 40, reading 5 40] \<and>
   \<not> distinct (map dateutc [reading 0 40, reading 5 40, reading 5 40])"
  by (simp add: range_fetch_dup reading_def)

text \<open>
  C2. A fetch whose start date is at or after its end date sends a page request for the
  end date first, as every fetch does. When it returns readings, each of them has the
  start date and the end date as its timestamp; so with a start date after the end date
  it returns no reading.
\<close>

theorem empty_window_fetch:
  assumes "endDate \<le> startDate"
    and "getDeviceDataForDateRange net api h macAddress startDate (Some endDate) maxDaysArg w
           = (r, w')"
  shows "(\<exists>evs. trace w' = trace w @ Get (page_request api macAddress endDate) # evs) \<and>
         (\<forall>xs. r = Inr xs \<longrightarrow>
            (\<forall>x\<in>set xs. dateutc x = startDate \<and> dateutc x = endDate) \<and>
            (endDate < startDate \<longrightarrow> xs = []))"
proof -
  obtain r1 w1 where f: "fetchDataInChunks net api h macAddress startDate endDate w = (r1, w1)"
    by (cases "fetchDataInChunks net api h macAddress startDate endDate w")
  have w: "w' = w1"
    using assms(2) by (cases r1) (simp_all add: getDeviceDataForDateRange_result f)
  from fetchDataInChunks_trace [OF f] w
  have a: "\<exists>evs. trace w' = trace w @ Get (page_request api macAddress endDate) # evs"
    by simp
  have b: "(\<forall>x\<in>set xs. dateutc x = startDate \<and> dateutc x = endDate) \<and>
      (endDate < startDate \<longrightarrow> xs = [])" if "r = Inr xs" for xs
  proof -
    from that assms(2) obtain all where xs: "xs = processRetrievedData all startDate endDate"
      by (cases r1) (auto simp: getDeviceDataForDateRange_result f)
    have in_window: "\<forall>x\<in>set xs. startDate \<le> dateutc x \<and> dateutc x \<le> endDate"
      unfolding xs by (simp add: processRetrievedData_set)
    have one: "\<forall>x\<in>set xs. dateutc x = startDate \<and> dateutc x = endDate"
      using in_window assms(1) by auto
    have two: "endDate < startDate \<longrightarrow> xs = []"
    proof
      assume lt: "endDate < startDate"
      show "xs = []"
      proof (cases xs)
        case Nil
        then show ?thesis .
      next
        case (Cons x rest)
        with in_window have "startDate \<le> dateutc x \<and> dateutc x \<le> endDate" by simp
        with lt show ?thesis by simp
      qed
    qed
    from one two show ?thesis by blast
  qed
  from a b show ?thesis by blast
qed

text \<open>A window from 20 back to 10: one request, no reading.\<close>

theorem empty_window_fetch_witness:
  "(10::int) \<le> 20 \<and>
   getDeviceDataForDateRange (server_const page_dup) api0 utc_host ''mac'' 20 (Some 10) None
     world0 =
     (Inr [], \<lparr> server = 1, trace = [Get (page_request api0 ''mac'' 10)] \<rparr>) \<and>
   trace world0 = []"
proof -
  have le: "(10::int) \<le> 20" by simp
  from empty_window_fetch [OF le range_fetch_inverted] le range_fetch_inverted
  show ?thesis by (simp add: world0_def)
qed

text \<open>A window from 10 to 10 on a service that has a reading of time 10: one request
  is sent and the reading comes back.\<close>

theorem empty_window_fetch_counterexample:
  "(10::int) \<ge> 10 \<and>
   fst (getDeviceDataForDateRange (server_const [reading 10 40]) api0 utc_host ''mac'' 10
          (Some 10) None world0) = Inr [reading 10 40] \<and>
   [reading 10 40] \<noteq> [] \<and>
   count_gets (trace (snd (getDeviceDataForDateRange (server_const [reading 10 40]) api0 utc_host
          ''mac'' 10 (Some 10) None world0))) = 1"
  by (simp add: range_fetch_instant count_gets_def isGet_def)

text \<open>
  C9. The maximum of days has no effect on the fetch: \<open>getDeviceDataForDateRange\<close>
  returns the same with any maximum as with the default of 365 days. For a window of 400
  days \<open>logDateRangeInfo\<close> computes 365 days to fetch, and the fetch returns readings that
  are 400 days apart.
\<close>

theorem maxDays_not_enforced:
  "getDeviceDataForDateRange net api h macAddress startDate endDateArg maxDaysArg w =
     getDeviceDataForDateRange net api h macAddress startDate endDateArg None w \<and>
   logDateRangeInfo 0 34560000000 365 = 365 \<and>
   fst (getDeviceDataForDateRange (server_const page_year) api0 utc_host ''mac'' 0
          (Some 34560000000) None world0)
     = Inr [reading 0 40, reading 34560000000 40] \<and>
   dateutc (reading 34560000000 40) - dateutc (reading 0 40) = 400 * MILLISECONDS_PER_DAY"
proof -
  have a: "getDeviceDataForDateRange net api h macAddress startDate endDateArg maxDaysArg w =
     getDeviceDataForDateRange net api h macAddress startDate endDateArg None w"
    by (simp add: getDeviceDataForDateRange_result)
  have b: "logDateRangeInfo 0 34560000000 365 = 365"
    by (simp add: logDateRangeInfo_def calculateDaysBetweenDates_def MILLISECONDS_PER_DAY_def)
  have c: "dateutc (reading 34560000000 40) - dateutc (reading 0 40)
      = 400 * MILLISECONDS_PER_DAY"
    by (simp add: reading_def MILLISECONDS_PER_DAY_def)
  from a b c show ?thesis by (simp add: range_fetch_year)
qed

end
